theory Spec2Isabelle
  imports Main "HOL-Library.Word"
begin

section \<open>Data model of the execution engine\<close>

text \<open>
  The engine of \<^verbatim>\<open>lib/ExecutionEngine/ExecutionEngine.cpp\<close> owns a Module, an IR
  container and a Backend. Its methods mutate these objects in place; the model passes
  the engine as a value and returns the updated one. C++ \<^verbatim>\<open>size_t\<close> is a 64-bit
  word, so that the arithmetic on the sample counter wraps as the machine's does.
\<close>

type_synonym size_t = "64 word"
type_synonym byte = "8 word"

text \<open>The two element kinds that \<^verbatim>\<open>tools/loader/loader.cpp\<close> names.\<close>

datatype ElemKind = FloatTy | IndexTy

text \<open>A tensor: element kind, shape (\<^verbatim>\<open>dims()\<close>) and the raw bytes of its buffer.\<close>

record Tensor =
  elemTy :: ElemKind
  dims :: "size_t list"
  bytes :: "byte list"

datatype VisibilityKind = Public | Private

text \<open>
  A Variable carries its visibility and its payload tensor. \<^verbatim>\<open>getType()->dims()\<close>
  of a Variable is the shape of its payload (the Variable's constructor, which is not
  part of the engine, allocates the payload with the Variable's type).
\<close>

record Variable =
  visibility :: VisibilityKind
  payload :: Tensor

text \<open>
  \<^verbatim>\<open>Variable *\<close> and \<^verbatim>\<open>Function *\<close> are addresses of objects owned by the
  Module: natural numbers that the Module resolves. An address the Module does not
  resolve stands for a pointer that may not be dereferenced.
\<close>

record 'g Module =
  variables :: "nat \<rightharpoonup> Variable"
  funcs :: "nat \<rightharpoonup> 'g"

text \<open>
  The IR container: the Function it is bound to (\<^verbatim>\<open>setGraph\<close>), the instruction
  list (\<^verbatim>\<open>getInstrs()\<close>) and the declarations of WeightVars and ActivationVars.
\<close>

record ('i, 'w) IRFunction =
  graph :: "nat option"
  instrs :: "'i list"
  weights :: "'w list"

text \<open>
  The enumerations \<^verbatim>\<open>BackendKind\<close> and \<^verbatim>\<open>CompilationMode\<close> are declared in
  headers; their constructors here stand for the interpreter, native-codegen and
  bundler variants and for the inference and training modes.
\<close>

datatype BackendKind = Interpreter | JIT | Bundler

datatype CompilationMode = Infer | Train

text \<open>
  Every call that the engine makes to a collaborator (Tensor, IRFunction, Function,
  the graph optimizer, the lowering pass, the Backend) is recorded, in program order,
  in the field \<open>trace\<close> of the engine. The trace is the observable order of effects.
  The members \<^verbatim>\<open>backendKind_\<close>, \<^verbatim>\<open>M_\<close>, \<^verbatim>\<open>IR_\<close> and \<^verbatim>\<open>backend_\<close> are
  the fields \<open>eeBackendKind\<close>, \<open>eeM\<close>, \<open>eeIR\<close> and \<open>eeBackend\<close>; \<^verbatim>\<open>IR_\<close> is a
  \<^verbatim>\<open>unique_ptr\<close>, which \<^verbatim>\<open>reset\<close> tests for null.
\<close>

datatype event =
    CallClear
  | CallCreateBackend BackendKind
  | CallVerify nat
  | CallOptimize nat CompilationMode
  | CallTransformPreLowering nat CompilationMode
  | CallLower nat CompilationMode
  | CallTransformPostLowering nat CompilationMode
  | CallSetGraph nat
  | CallGenerateIR
  | CallOptimizeIR CompilationMode
  | CallInit
  | CallSave string
  | CallCopyFrom nat Tensor
  | CallCopyConsecutiveSlices nat Tensor size_t
  | CallDoForwardPass

record ('g, 'i, 'w, 'b) ExecutionEngine =
  eeBackendKind :: BackendKind
  eeM :: "'g Module"
  eeIR :: "('i, 'w) IRFunction option"
  eeBackend :: 'b
  trace :: "event list"

text \<open>
  The collaborators whose code is outside the engine are parameters of the model:
  the factory \<^verbatim>\<open>createBackend\<close>, \<^verbatim>\<open>Function::verify\<close> (which asserts inside; here
  it answers whether the Function is valid), the graph optimizer, the lowering pass, the
  two Backend hooks (each returns whether it changed the graph, and the graph),
  \<^verbatim>\<open>IRFunction::generateIR\<close>, the IR optimizer and the Backend's \<^verbatim>\<open>init\<close>,
  \<^verbatim>\<open>save\<close> and \<^verbatim>\<open>doForwardPass\<close>. The Backend is created with a pointer to the IR
  container, so its methods read the current IR.
\<close>

record ('g, 'i, 'w, 'b) Collaborators =
  createBackend :: "BackendKind \<Rightarrow> 'b"
  Function_verify :: "'g \<Rightarrow> bool"
  optimizeGraph :: "'g \<Rightarrow> CompilationMode \<Rightarrow> 'g"
  transformPreLowering :: "'b \<Rightarrow> 'g \<Rightarrow> CompilationMode \<Rightarrow> bool \<times> 'g"
  lowerGraph :: "'g \<Rightarrow> CompilationMode \<Rightarrow> 'b \<Rightarrow> 'g"
  transformPostLowering :: "'b \<Rightarrow> 'g \<Rightarrow> CompilationMode \<Rightarrow> bool \<times> 'g"
  IRFunction_generateIR :: "'g \<Rightarrow> ('i, 'w) IRFunction \<Rightarrow> ('i, 'w) IRFunction"
  optimizeIR :: "('i, 'w) IRFunction \<Rightarrow> CompilationMode \<Rightarrow> 'b \<Rightarrow> ('i, 'w) IRFunction"
  Backend_init :: "'b \<Rightarrow> ('i, 'w) IRFunction option \<Rightarrow> 'b"
  Backend_save :: "'b \<Rightarrow> ('i, 'w) IRFunction option \<Rightarrow> string \<Rightarrow> 'b"
  doForwardPass :: "'b \<Rightarrow> ('i, 'w) IRFunction \<Rightarrow> (nat \<rightharpoonup> Variable) \<Rightarrow> (nat \<rightharpoonup> Variable)"

text \<open>
  A failed \<^verbatim>\<open>assert\<close>, a dereference of an unresolved pointer, an index past the end
  of an array and a division by zero all end the process. The outcome of a method is
  either \<open>Done\<close> with the new state or \<open>Abort\<close> with the reason and the state reached
  when the process ended, so that what happened before the failure stays visible.
\<close>

datatype failure =
    SizeMismatch
  | NoInstructions
  | NoInputs
  | PrivateVariable
  | InvalidValue
  | InvalidSliceSize
  | IndexOutOfRange
  | DivisionByZero
  | VerificationFailed
  | NullIR
  | CouldNotOpenWeightsFile
  | WrongWeightsFileSize
  | NoImageFilenames
  | ImageReadError
  | WrongImageSize
  | OutOfBounds

datatype 's outcome = Done 's | Abort failure 's

fun state_of :: "'s outcome \<Rightarrow> 's" where
  "state_of (Done s) = s"
| "state_of (Abort e s) = s"

definition record_call :: "event \<Rightarrow> ('g, 'i, 'w, 'b) ExecutionEngine \<Rightarrow> ('g, 'i, 'w, 'b) ExecutionEngine" where
  "record_call ev E = E\<lparr>trace := trace E @ [ev]\<rparr>"

section \<open>reset\<close>

text \<open>
  Modelled from the spec: \<^verbatim>\<open>IRFunction::clear()\<close> is not under src/. The spec says
  that reset "clears the IR container's instructions/declarations"; the binding to the
  graph is not mentioned and is kept.
\<close>

definition IRFunction_clear :: "('i, 'w) IRFunction \<Rightarrow> ('i, 'w) IRFunction" where
  "IRFunction_clear ir = ir\<lparr>instrs := [], weights := []\<rparr>"

text \<open>
  \<^verbatim>\<open>if (IR_) IR_->clear(); backend_.reset(createBackend(backendKind_, &*IR_));\<close>
\<close>

definition reset ::
  "('g, 'i, 'w, 'b) Collaborators \<Rightarrow> ('g, 'i, 'w, 'b) ExecutionEngine \<Rightarrow> ('g, 'i, 'w, 'b) ExecutionEngine" where
  "reset env E =
     (let E1 = (case eeIR E of
                  None \<Rightarrow> E
                | Some ir \<Rightarrow> record_call CallClear (E\<lparr>eeIR := Some (IRFunction_clear ir)\<rparr>))
      in record_call (CallCreateBackend (eeBackendKind E1))
           (E1\<lparr>eeBackend := createBackend env (eeBackendKind E1)\<rparr>))"

section \<open>run\<close>

text \<open>
  Modelled from the spec: \<^verbatim>\<open>Tensor::copyFrom\<close> is not under src/. The spec gives a
  Tensor a "whole-copy" from another tensor: the destination becomes the source, with
  its element kind, shape and bytes.
\<close>

definition Tensor_copyFrom :: "Tensor \<Rightarrow> Tensor \<Rightarrow> Tensor" where
  "Tensor_copyFrom t input = input"

definition setPayload ::
  "nat \<Rightarrow> Variable \<Rightarrow> Tensor \<Rightarrow> ('g, 'i, 'w, 'b) ExecutionEngine \<Rightarrow> ('g, 'i, 'w, 'b) ExecutionEngine" where
  "setPayload v var t E =
     E\<lparr>eeM := (eeM E)\<lparr>variables := (variables (eeM E))(v \<mapsto> var\<lparr>payload := t\<rparr>)\<rparr>\<rparr>"

text \<open>
  \<^verbatim>\<open>assert(v && "Invalid value"); assert(t.dims() == dim && "Invalid slice size");
  t.copyFrom(input);\<close>
\<close>

definition loadValueFromTensor ::
  "nat \<Rightarrow> Tensor \<Rightarrow> ('g, 'i, 'w, 'b) ExecutionEngine \<Rightarrow> ('g, 'i, 'w, 'b) ExecutionEngine outcome" where
  "loadValueFromTensor v input E =
     (case variables (eeM E) v of
        None \<Rightarrow> Abort InvalidValue E
      | Some var \<Rightarrow>
          if dims (payload var) \<noteq> dims input then Abort InvalidSliceSize E
          else Done (record_call (CallCopyFrom v input)
                       (setPayload v var (Tensor_copyFrom (payload var) input) E)))"

text \<open>
  The loop of \<^verbatim>\<open>run\<close> over \<^verbatim>\<open>vars[i]\<close> and \<^verbatim>\<open>inputs[i]\<close>: the visibility of
  \<^verbatim>\<open>vars[i]\<close> is asserted, then the input is loaded. The third equation is an index
  past the end of \<^verbatim>\<open>inputs\<close>, which the assertion on the sizes excludes.
\<close>

fun run_loop ::
  "nat list \<Rightarrow> Tensor list \<Rightarrow> ('g, 'i, 'w, 'b) ExecutionEngine \<Rightarrow> ('g, 'i, 'w, 'b) ExecutionEngine outcome" where
  "run_loop [] inputs E = Done E"
| "run_loop (v # vs) (t # ts) E =
     (case variables (eeM E) v of
        None \<Rightarrow> Abort InvalidValue E
      | Some var \<Rightarrow>
          if visibility var \<noteq> Public then Abort PrivateVariable E
          else (case loadValueFromTensor v t E of
                  Abort e E' \<Rightarrow> Abort e E'
                | Done E' \<Rightarrow> run_loop vs ts E'))"
| "run_loop (v # vs) [] E = Abort IndexOutOfRange E"

definition forwardPass ::
  "('g, 'i, 'w, 'b) Collaborators \<Rightarrow> ('i, 'w) IRFunction \<Rightarrow> ('g, 'i, 'w, 'b) ExecutionEngine \<Rightarrow> ('g, 'i, 'w, 'b) ExecutionEngine" where
  "forwardPass env ir E =
     record_call CallDoForwardPass
       (E\<lparr>eeM := (eeM E)\<lparr>variables := doForwardPass env (eeBackend E) ir (variables (eeM E))\<rparr>\<rparr>)"

definition run ::
  "('g, 'i, 'w, 'b) Collaborators \<Rightarrow> nat list \<Rightarrow> Tensor list \<Rightarrow> ('g, 'i, 'w, 'b) ExecutionEngine \<Rightarrow> ('g, 'i, 'w, 'b) ExecutionEngine outcome" where
  "run env vars inputs E =
     (if length inputs \<noteq> length vars then Abort SizeMismatch E
      else case eeIR E of
        None \<Rightarrow> Abort NullIR E
      | Some ir \<Rightarrow>
          if instrs ir = [] then Abort NoInstructions E
          else (case run_loop vars inputs E of
                  Abort e E' \<Rightarrow> Abort e E'
                | Done E' \<Rightarrow> Done (forwardPass env ir E')))"

section \<open>runBatch\<close>

text \<open>
  Modelled from the spec: \<^verbatim>\<open>Tensor::copyConsecutiveSlices\<close> is not under src/. The
  spec gives a Tensor a "slice-copy" from another tensor, "sliced along" the leading
  dimension: the destination, of leading dimension \<open>n\<close>, is filled with the \<open>n\<close>
  consecutive slices of the source that start at the given slice and wrap around at
  the source's leading dimension. \<open>slicesConsumed\<close> lists the indices of these slices.
\<close>

definition slicesConsumed :: "Tensor \<Rightarrow> Tensor \<Rightarrow> size_t \<Rightarrow> nat list" where
  "slicesConsumed t input startSliceIdx =
     map (\<lambda>n. (unat startSliceIdx + n) mod unat (hd (dims input))) [0..<unat (hd (dims t))]"

definition sliceBytes :: "Tensor \<Rightarrow> nat \<Rightarrow> byte list" where
  "sliceBytes input k =
     (let sz = length (bytes input) div unat (hd (dims input))
      in take sz (drop (k * sz) (bytes input)))"

definition Tensor_copyConsecutiveSlices :: "Tensor \<Rightarrow> Tensor \<Rightarrow> size_t \<Rightarrow> Tensor" where
  "Tensor_copyConsecutiveSlices t input startSliceIdx =
     t\<lparr>bytes := concat (map (sliceBytes input) (slicesConsumed t input startSliceIdx))\<rparr>"

text \<open>
  \<^verbatim>\<open>assert(v && "Invalid value");
  assert(t.dims().drop_front() == dim.drop_front() && "Invalid slice size");
  size_t slc = sampleIdx % dim[0]; t.copyConsecutiveSlices(input, slc);\<close>
  \<^verbatim>\<open>drop_front\<close> and \<^verbatim>\<open>dim[0]\<close> on an empty shape are out of range, and the
  remainder by a leading dimension of zero is a division by zero.
\<close>

definition loadValueFromTensorSlice ::
  "nat \<Rightarrow> Tensor \<Rightarrow> size_t \<Rightarrow> ('g, 'i, 'w, 'b) ExecutionEngine \<Rightarrow> ('g, 'i, 'w, 'b) ExecutionEngine outcome" where
  "loadValueFromTensorSlice v input sampleIdx E =
     (case variables (eeM E) v of
        None \<Rightarrow> Abort InvalidValue E
      | Some var \<Rightarrow>
          if dims (payload var) = [] \<or> dims input = [] then Abort IndexOutOfRange E
          else if tl (dims (payload var)) \<noteq> tl (dims input) then Abort InvalidSliceSize E
          else if hd (dims input) = 0 then Abort DivisionByZero E
          else (let slc = sampleIdx mod hd (dims input)
                in Done (record_call (CallCopyConsecutiveSlices v input slc)
                           (setPayload v var (Tensor_copyConsecutiveSlices (payload var) input slc) E))))"

text \<open>The loop of \<^verbatim>\<open>updateInputsAndRunNetwork\<close> over \<^verbatim>\<open>vars[i]\<close> and \<^verbatim>\<open>inputs[i]\<close>.\<close>

fun updateInputs_loop ::
  "nat list \<Rightarrow> Tensor list \<Rightarrow> size_t \<Rightarrow> ('g, 'i, 'w, 'b) ExecutionEngine \<Rightarrow> ('g, 'i, 'w, 'b) ExecutionEngine outcome" where
  "updateInputs_loop [] inputs sampleIdx E = Done E"
| "updateInputs_loop (v # vs) (t # ts) sampleIdx E =
     (case loadValueFromTensorSlice v t sampleIdx E of
        Abort e E' \<Rightarrow> Abort e E'
      | Done E' \<Rightarrow> updateInputs_loop vs ts sampleIdx E')"
| "updateInputs_loop (v # vs) [] sampleIdx E = Abort IndexOutOfRange E"

text \<open>
  \<^verbatim>\<open>backend_->doForwardPass()\<close> runs the instructions of the IR container the
  Backend was created with.
\<close>

definition updateInputsAndRunNetwork ::
  "('g, 'i, 'w, 'b) Collaborators \<Rightarrow> nat list \<Rightarrow> Tensor list \<Rightarrow> size_t \<Rightarrow>
   ('g, 'i, 'w, 'b) ExecutionEngine \<Rightarrow> ('g, 'i, 'w, 'b) ExecutionEngine outcome" where
  "updateInputsAndRunNetwork env vars inputs sampleIdx E =
     (case updateInputs_loop vars inputs sampleIdx E of
        Abort e E' \<Rightarrow> Abort e E'
      | Done E' \<Rightarrow>
          (case eeIR E' of
             None \<Rightarrow> Abort NullIR E'
           | Some ir \<Rightarrow> Done (forwardPass env ir E')))"

text \<open>
  \<^verbatim>\<open>static size_t trainCounter = 0;\<close> is a local static of the method: one counter
  for the whole process, which outlives every call. The state of \<^verbatim>\<open>runBatch\<close> is
  therefore the pair of that counter and the engine the method is called on. The loop
  runs \<open>iterations\<close> times; each round loads the slices, runs the network and adds
  \<open>batchSize\<close> to the counter.
\<close>

fun runBatch_loop ::
  "('g, 'i, 'w, 'b) Collaborators \<Rightarrow> nat \<Rightarrow> nat list \<Rightarrow> Tensor list \<Rightarrow> size_t \<Rightarrow>
   size_t \<times> ('g, 'i, 'w, 'b) ExecutionEngine \<Rightarrow> (size_t \<times> ('g, 'i, 'w, 'b) ExecutionEngine) outcome" where
  "runBatch_loop env 0 vars inputs batchSize S = Done S"
| "runBatch_loop env (Suc n) vars inputs batchSize (trainCounter, E) =
     (case updateInputsAndRunNetwork env vars inputs trainCounter E of
        Abort e E' \<Rightarrow> Abort e (trainCounter, E')
      | Done E' \<Rightarrow> runBatch_loop env n vars inputs batchSize (trainCounter + batchSize, E'))"

text \<open>\<^verbatim>\<open>vars[0]->getType()->dims()[0]\<close>, with the failures of its three dereferences.\<close>

definition getBatchSize :: "('g, 'i, 'w, 'b) ExecutionEngine \<Rightarrow> nat list \<Rightarrow> failure + size_t" where
  "getBatchSize E vars =
     (case vars of
        [] \<Rightarrow> Inl IndexOutOfRange
      | v # _ \<Rightarrow>
          (case variables (eeM E) v of
             None \<Rightarrow> Inl InvalidValue
           | Some var \<Rightarrow>
               (case dims (payload var) of
                  [] \<Rightarrow> Inl IndexOutOfRange
                | b # _ \<Rightarrow> Inr b)))"

definition runBatch ::
  "('g, 'i, 'w, 'b) Collaborators \<Rightarrow> size_t \<Rightarrow> nat list \<Rightarrow> Tensor list \<Rightarrow>
   size_t \<times> ('g, 'i, 'w, 'b) ExecutionEngine \<Rightarrow> (size_t \<times> ('g, 'i, 'w, 'b) ExecutionEngine) outcome" where
  "runBatch env iterations vars inputs S =
     (if inputs = [] then Abort NoInputs S
      else if length inputs \<noteq> length vars then Abort SizeMismatch S
      else case eeIR (snd S) of
        None \<Rightarrow> Abort NullIR S
      | Some ir \<Rightarrow>
          if instrs ir = [] then Abort NoInstructions S
          else (case getBatchSize (snd S) vars of
                  Inl e \<Rightarrow> Abort e S
                | Inr batchSize \<Rightarrow> runBatch_loop env (unat iterations) vars inputs batchSize S))"

text \<open>
  The shape of the payload of each variable, and the conjunction of what
  \<^verbatim>\<open>loadValueFromTensorSlice\<close> asserts or needs of a variable and an input: the
  variable resolves, both shapes have a leading dimension, the shapes agree behind it,
  and the leading dimension of the input is not zero.
\<close>

definition shapeOf :: "(nat \<rightharpoonup> Variable) \<Rightarrow> nat \<Rightarrow> size_t list option" where
  "shapeOf vs u = map_option (\<lambda>var. dims (payload var)) (vs u)"

definition sliceLoadable :: "(nat \<rightharpoonup> Variable) \<Rightarrow> nat \<Rightarrow> Tensor \<Rightarrow> bool" where
  "sliceLoadable vs v input =
     (case shapeOf vs v of
        None \<Rightarrow> False
      | Some d \<Rightarrow> d \<noteq> [] \<and> dims input \<noteq> [] \<and> tl d = tl (dims input) \<and> hd (dims input) \<noteq> 0)"


section \<open>generateIR, compile and save\<close>

definition setFunction ::
  "nat \<Rightarrow> 'g \<Rightarrow> ('g, 'i, 'w, 'b) ExecutionEngine \<Rightarrow> ('g, 'i, 'w, 'b) ExecutionEngine" where
  "setFunction F g E = E\<lparr>eeM := (eeM E)\<lparr>funcs := (funcs (eeM E))(F \<mapsto> g)\<rparr>\<rparr>"

text \<open>
  The graph passes rewrite the Function \<open>F\<close> in place: each one is recorded and its
  result stored back in the Module.
\<close>

definition graphPass ::
  "event \<Rightarrow> nat \<Rightarrow> 'g \<Rightarrow> ('g, 'i, 'w, 'b) ExecutionEngine \<Rightarrow> ('g, 'i, 'w, 'b) ExecutionEngine" where
  "graphPass ev F g E = record_call ev (setFunction F g E)"

text \<open>The tail of \<^verbatim>\<open>generateIR\<close>: \<^verbatim>\<open>setGraph\<close>, \<^verbatim>\<open>IR_->generateIR()\<close>, IR optimizer.\<close>

definition generateIR_tail ::
  "('g, 'i, 'w, 'b) Collaborators \<Rightarrow> CompilationMode \<Rightarrow> nat \<Rightarrow> 'g \<Rightarrow>
   ('g, 'i, 'w, 'b) ExecutionEngine \<Rightarrow> ('g, 'i, 'w, 'b) ExecutionEngine outcome" where
  "generateIR_tail env mode F g E =
     (case eeIR E of
        None \<Rightarrow> Abort NullIR E
      | Some ir \<Rightarrow>
          (let ir1 = ir\<lparr>graph := Some F\<rparr>;
               E1 = record_call (CallSetGraph F) (E\<lparr>eeIR := Some ir1\<rparr>);
               ir2 = IRFunction_generateIR env g ir1;
               E2 = record_call CallGenerateIR (E1\<lparr>eeIR := Some ir2\<rparr>);
               ir3 = optimizeIR env ir2 mode (eeBackend E2);
               E3 = record_call (CallOptimizeIR mode) (E2\<lparr>eeIR := Some ir3\<rparr>)
           in Done E3))"

definition generateIR ::
  "('g, 'i, 'w, 'b) Collaborators \<Rightarrow> CompilationMode \<Rightarrow> nat \<Rightarrow>
   ('g, 'i, 'w, 'b) ExecutionEngine \<Rightarrow> ('g, 'i, 'w, 'b) ExecutionEngine outcome" where
  "generateIR env mode F E =
     (let E0 = reset env E in
      case funcs (eeM E0) F of
        None \<Rightarrow> Abort InvalidValue E0
      | Some g0 \<Rightarrow>
          (let E1 = record_call (CallVerify F) E0 in
           if \<not> Function_verify env g0 then Abort VerificationFailed E1
           else
             (let g1 = optimizeGraph env g0 mode;
                  E2 = graphPass (CallOptimize F mode) F g1 E1;
                  pre = transformPreLowering env (eeBackend E2) g1 mode;
                  E3 = graphPass (CallTransformPreLowering F mode) F (snd pre) E2;
                  g3 = (if fst pre then optimizeGraph env (snd pre) mode else snd pre);
                  E4 = (if fst pre then graphPass (CallOptimize F mode) F g3 E3 else E3);
                  g5 = lowerGraph env g3 mode (eeBackend E4);
                  E5 = graphPass (CallLower F mode) F g5 E4;
                  g6 = optimizeGraph env g5 mode;
                  E6 = graphPass (CallOptimize F mode) F g6 E5;
                  post = transformPostLowering env (eeBackend E6) g6 mode;
                  E7 = graphPass (CallTransformPostLowering F mode) F (snd post) E6;
                  g8 = (if fst post then optimizeGraph env (snd post) mode else snd post);
                  E8 = (if fst post then graphPass (CallOptimize F mode) F g8 E7 else E7)
              in generateIR_tail env mode F g8 E8)))"

text \<open>\<^verbatim>\<open>generateIR(mode, F); backend_->init();\<close>\<close>

definition compile ::
  "('g, 'i, 'w, 'b) Collaborators \<Rightarrow> CompilationMode \<Rightarrow> nat \<Rightarrow>
   ('g, 'i, 'w, 'b) ExecutionEngine \<Rightarrow> ('g, 'i, 'w, 'b) ExecutionEngine outcome" where
  "compile env mode F E =
     (case generateIR env mode F E of
        Abort e E' \<Rightarrow> Abort e E'
      | Done E' \<Rightarrow>
          Done (record_call CallInit (E'\<lparr>eeBackend := Backend_init env (eeBackend E') (eeIR E')\<rparr>)))"

text \<open>\<^verbatim>\<open>generateIR(mode, F); backend_->save(outputDir);\<close>\<close>

definition save ::
  "('g, 'i, 'w, 'b) Collaborators \<Rightarrow> CompilationMode \<Rightarrow> nat \<Rightarrow> string \<Rightarrow>
   ('g, 'i, 'w, 'b) ExecutionEngine \<Rightarrow> ('g, 'i, 'w, 'b) ExecutionEngine outcome" where
  "save env mode F outputDir E =
     (case generateIR env mode F E of
        Abort e E' \<Rightarrow> Abort e E'
      | Done E' \<Rightarrow>
          Done (record_call (CallSave outputDir)
                  (E'\<lparr>eeBackend := Backend_save env (eeBackend E') (eeIR E') outputDir\<rparr>)))"

section \<open>Constructor and setBackend\<close>

text \<open>
  \<^verbatim>\<open>M_.reset(new Module()); IR_.reset(new IRFunction());
  backend_.reset(createBackend(backendKind_, &*IR_));\<close>
\<close>

definition newExecutionEngine ::
  "('g, 'i, 'w, 'b) Collaborators \<Rightarrow> BackendKind \<Rightarrow> ('g, 'i, 'w, 'b) ExecutionEngine" where
  "newExecutionEngine env kind =
     \<lparr>eeBackendKind = kind,
      eeM = \<lparr>variables = Map.empty, funcs = Map.empty\<rparr>,
      eeIR = Some \<lparr>graph = None, instrs = [], weights = []\<rparr>,
      eeBackend = createBackend env kind,
      trace = [CallCreateBackend kind]\<rparr>"

definition setBackend ::
  "('g, 'i, 'w, 'b) Collaborators \<Rightarrow> BackendKind \<Rightarrow> ('g, 'i, 'w, 'b) ExecutionEngine \<Rightarrow> ('g, 'i, 'w, 'b) ExecutionEngine" where
  "setBackend env kind E =
     record_call (CallCreateBackend kind) (E\<lparr>eeBackendKind := kind, eeBackend := createBackend env kind\<rparr>)"

section \<open>A process with several engines\<close>

text \<open>
  The state of a process: the local static \<^verbatim>\<open>trainCounter\<close> of \<^verbatim>\<open>runBatch\<close>, of
  which the program has one, and the engine objects by address. A method is called on
  the engine at the address \<open>this\<close>. No method but \<open>runBatch\<close> has the counter in
  scope.
\<close>

record ('g, 'i, 'w, 'b) Process =
  trainCounter :: size_t
  engines :: "nat \<Rightarrow> ('g, 'i, 'w, 'b) ExecutionEngine"

definition storeEngine ::
  "nat \<Rightarrow> ('g, 'i, 'w, 'b) Process \<Rightarrow> ('g, 'i, 'w, 'b) ExecutionEngine outcome \<Rightarrow> ('g, 'i, 'w, 'b) Process outcome" where
  "storeEngine this P r =
     (case r of
        Done E' \<Rightarrow> Done (P\<lparr>engines := (engines P)(this := E')\<rparr>)
      | Abort e E' \<Rightarrow> Abort e (P\<lparr>engines := (engines P)(this := E')\<rparr>))"

definition call_reset ::
  "('g, 'i, 'w, 'b) Collaborators \<Rightarrow> nat \<Rightarrow> ('g, 'i, 'w, 'b) Process \<Rightarrow> ('g, 'i, 'w, 'b) Process outcome" where
  "call_reset env this P = storeEngine this P (Done (reset env (engines P this)))"

definition call_run ::
  "('g, 'i, 'w, 'b) Collaborators \<Rightarrow> nat \<Rightarrow> nat list \<Rightarrow> Tensor list \<Rightarrow>
   ('g, 'i, 'w, 'b) Process \<Rightarrow> ('g, 'i, 'w, 'b) Process outcome" where
  "call_run env this vars inputs P = storeEngine this P (run env vars inputs (engines P this))"

definition call_compile ::
  "('g, 'i, 'w, 'b) Collaborators \<Rightarrow> nat \<Rightarrow> CompilationMode \<Rightarrow> nat \<Rightarrow>
   ('g, 'i, 'w, 'b) Process \<Rightarrow> ('g, 'i, 'w, 'b) Process outcome" where
  "call_compile env this mode F P = storeEngine this P (compile env mode F (engines P this))"

definition call_save ::
  "('g, 'i, 'w, 'b) Collaborators \<Rightarrow> nat \<Rightarrow> CompilationMode \<Rightarrow> nat \<Rightarrow> string \<Rightarrow>
   ('g, 'i, 'w, 'b) Process \<Rightarrow> ('g, 'i, 'w, 'b) Process outcome" where
  "call_save env this mode F outputDir P =
     storeEngine this P (save env mode F outputDir (engines P this))"

definition call_runBatch ::
  "('g, 'i, 'w, 'b) Collaborators \<Rightarrow> nat \<Rightarrow> size_t \<Rightarrow> nat list \<Rightarrow> Tensor list \<Rightarrow>
   ('g, 'i, 'w, 'b) Process \<Rightarrow> ('g, 'i, 'w, 'b) Process outcome" where
  "call_runBatch env this iterations vars inputs P =
     (case runBatch env iterations vars inputs (trainCounter P, engines P this) of
        Done (c, E') \<Rightarrow> Done \<lparr>trainCounter = c, engines = (engines P)(this := E')\<rparr>
      | Abort e (c, E') \<Rightarrow> Abort e \<lparr>trainCounter = c, engines = (engines P)(this := E')\<rparr>)"

section \<open>The standalone consumer of a bundle\<close>

text \<open>
  \<^verbatim>\<open>examples/compile_lenet_mnist/lenet_mnist_standalone.cpp\<close>. Sizes are byte counts
  far below \<open>2 ^ 64\<close> and are natural numbers; a buffer is the list of its bytes.
\<close>

record BundleConfig =
  constantWeightVarsMemSize :: nat
  mutableWeightVarsMemSize :: nat
  activationsMemSize :: nat

text \<open>
  What the consumer takes from outside: the files that \<^verbatim>\<open>fopen\<close> can open, with
  their contents; for each image file, whether \<^verbatim>\<open>readPngImage\<close> succeeds and with which
  width and height, and the bytes that its pixels occupy in the result tensor once
  normalised (decoding and floating point are outside the model); the compiled entry
  point \<^verbatim>\<open>lenet_mnist\<close>, which maps the three buffers to the new contents of the two
  it may write; and the reading and the comparison of a \<^verbatim>\<open>float\<close>.
\<close>

record 'f BundleEnv =
  weightsFiles :: "string \<rightharpoonup> byte list"
  pngSize :: "string \<Rightarrow> (nat \<times> nat) option"
  pngPixels :: "string \<Rightarrow> nat \<Rightarrow> byte"
  entryPoint :: "byte list \<Rightarrow> byte list \<Rightarrow> byte list \<Rightarrow> byte list \<times> byte list"
  toFloat :: "byte list \<Rightarrow> 'f"
  greater :: "'f \<Rightarrow> 'f \<Rightarrow> bool"
  zeroFloat :: 'f

text \<open>\<^verbatim>\<open>calloc(1, n)\<close>: \<open>n\<close> bytes, all zero.\<close>

definition calloc :: "nat \<Rightarrow> byte list" where
  "calloc n = replicate n 0"

text \<open>
  \<^verbatim>\<open>fread(ptr, size, nmemb, stream)\<close> on a stream at its start: the bytes read are
  stored at the start of the buffer and the number of complete items is returned; with
  a size or a count of zero nothing is read and zero is returned. The device itself does
  not fail.
\<close>

definition fread :: "byte list \<Rightarrow> nat \<Rightarrow> nat \<Rightarrow> byte list \<Rightarrow> nat \<times> byte list" where
  "fread ptr itemSize nmemb stream =
     (if itemSize = 0 \<or> nmemb = 0 then (0, ptr)
      else (let n = min (itemSize * nmemb) (length stream)
            in (n div itemSize, take n stream @ drop n ptr)))"

text \<open>
  \<^verbatim>\<open>initConstantWeights\<close>: a file that cannot be opened ends the process
  (\<^verbatim>\<open>exit(1)\<close>); the buffer is allocated with the size of the file; the size of the
  file is asserted to be the configured one; the file is read as one item. The two
  branches on the result of \<^verbatim>\<open>fread\<close> differ in the message they print only.
\<close>

definition initConstantWeights :: "'f BundleEnv \<Rightarrow> string \<Rightarrow> BundleConfig \<Rightarrow> failure + byte list" where
  "initConstantWeights env weightsFileName config =
     (case weightsFiles env weightsFileName of
        None \<Rightarrow> Inl CouldNotOpenWeightsFile
      | Some weightsFile \<Rightarrow>
          (let fileSize = length weightsFile;
               baseConstantWeightVarsAddr = calloc fileSize
           in if fileSize \<noteq> constantWeightVarsMemSize config then Inl WrongWeightsFileSize
              else Inr (snd (fread baseConstantWeightVarsAddr fileSize 1 weightsFile))))"

definition allocateMutableWeightVars :: "BundleConfig \<Rightarrow> byte list" where
  "allocateMutableWeightVars config = calloc (mutableWeightVarsMemSize config)"

definition initActivations :: "BundleConfig \<Rightarrow> byte list" where
  "initActivations config = calloc (activationsMemSize config)"

text \<open>
  \<^verbatim>\<open>loadImagesAndPreprocess\<close>: at least one file name is asserted; the result has
  the dimensions \<open>N x 1 x 28 x 28\<close>; each image must load and must be 28 by 28; its
  \<open>28 * 28\<close> floats of four bytes each follow those of the images before it.
\<close>

fun loadImages_loop :: "'f BundleEnv \<Rightarrow> string list \<Rightarrow> failure + byte list" where
  "loadImages_loop env [] = Inr []"
| "loadImages_loop env (f # fs) =
     (case pngSize env f of
        None \<Rightarrow> Inl ImageReadError
      | Some (w, h) \<Rightarrow>
          if \<not> (w = 28 \<and> h = 28) then Inl WrongImageSize
          else (case loadImages_loop env fs of
                  Inl e \<Rightarrow> Inl e
                | Inr rest \<Rightarrow> Inr (map (pngPixels env f) [0..<28 * 28 * 4] @ rest)))"

definition loadImagesAndPreprocess :: "'f BundleEnv \<Rightarrow> string list \<Rightarrow> failure + (nat list \<times> byte list)" where
  "loadImagesAndPreprocess env filenames =
     (if filenames = [] then Inl NoImageFilenames
      else case loadImages_loop env filenames of
        Inl e \<Rightarrow> Inl e
      | Inr resultT \<Rightarrow> Inr ([length filenames, 1, 28, 28], resultT))"

text \<open>
  \<^verbatim>\<open>memcpy(dst + off, src, n)\<close>. A copy that leaves the destination or the source
  has no defined behaviour and is a failure of the model.
\<close>

definition memcpy :: "byte list \<Rightarrow> nat \<Rightarrow> byte list \<Rightarrow> nat \<Rightarrow> byte list option" where
  "memcpy dst off src n =
     (if off + n \<le> length dst \<and> n \<le> length src
      then Some (take off dst @ take n src @ drop (off + n) dst)
      else None)"

text \<open>
  \<^verbatim>\<open>initMutableWeightVars\<close>: allocate, load the images, copy them twice, at offset
  zero and right behind.
\<close>

definition initMutableWeightVars :: "'f BundleEnv \<Rightarrow> string list \<Rightarrow> BundleConfig \<Rightarrow> failure + byte list" where
  "initMutableWeightVars env inputImageFilenames config =
     (let mutableWeightVarsAddr = allocateMutableWeightVars config in
      case loadImagesAndPreprocess env inputImageFilenames of
        Inl e \<Rightarrow> Inl e
      | Inr (inputDims, inputT) \<Rightarrow>
          (let imageDataSizeInBytes = inputDims ! 0 * inputDims ! 1 * inputDims ! 2 * inputDims ! 3 * 4
           in case memcpy mutableWeightVarsAddr 0 inputT imageDataSizeInBytes of
                None \<Rightarrow> Inl OutOfBounds
              | Some m1 \<Rightarrow>
                  (case memcpy m1 imageDataSizeInBytes inputT imageDataSizeInBytes of
                     None \<Rightarrow> Inl OutOfBounds
                   | Some m2 \<Rightarrow> Inr m2)))"

text \<open>
  The loop of \<^verbatim>\<open>dumpInferenceResults\<close> over \<^verbatim>\<open>results[0]\<close> to \<^verbatim>\<open>results[9]\<close>:
  \<^verbatim>\<open>if (results[i] > maxValue) { maxValue = results[i]; maxIdx = i; }\<close>
\<close>

fun maxIdx_loop :: "('f \<Rightarrow> 'f \<Rightarrow> bool) \<Rightarrow> 'f list \<Rightarrow> nat \<Rightarrow> nat \<times> 'f \<Rightarrow> nat \<times> 'f" where
  "maxIdx_loop gt [] i best = best"
| "maxIdx_loop gt (r # rs) i (maxIdx, maxValue) =
     (if gt r maxValue then maxIdx_loop gt rs (Suc i) (i, r)
      else maxIdx_loop gt rs (Suc i) (maxIdx, maxValue))"

text \<open>
  \<^verbatim>\<open>float *results = (float *)(mutableWeightVars + config->mutableWeightVarsMemSize - 40);\<close>
  The pointer is the buffer from that offset on, and \<^verbatim>\<open>results[i]\<close> is the float in
  its bytes \<open>4 * i\<close> to \<open>4 * i + 3\<close>. A configured size below 40, or above the size of
  the buffer, puts the reads outside the buffer. The value is the index printed.
\<close>

definition dumpInferenceResults :: "'f BundleEnv \<Rightarrow> BundleConfig \<Rightarrow> byte list \<Rightarrow> nat option" where
  "dumpInferenceResults env config mutableWeightVars =
     (if mutableWeightVarsMemSize config < 40 \<or> length mutableWeightVars < mutableWeightVarsMemSize config
      then None
      else (let results = drop (mutableWeightVarsMemSize config - 40) mutableWeightVars
            in Some (fst (maxIdx_loop (greater env)
                       (map (\<lambda>i. toFloat env (take 4 (drop (4 * i) results))) [0..<10])
                       0 (0, zeroFloat env)))))"

text \<open>
  The entry point writes into the buffers it is given: whatever it computes, a buffer
  keeps its size.
\<close>

definition written :: "byte list \<Rightarrow> byte list \<Rightarrow> byte list" where
  "written buf new = take (length buf) (new @ drop (length new) buf)"

text \<open>
  What a run of \<^verbatim>\<open>main\<close> has done when it ends: the invocations of the entry point,
  each with the three buffers as they were passed, and the result printed.
\<close>

record Effects =
  entryCalls :: "(byte list \<times> byte list \<times> byte list) list"
  printed :: "nat option"

text \<open>
  \<^verbatim>\<open>main\<close>: the file names are the arguments after the program's name; the three
  buffers are initialised in the order constant weights, mutable weights, activations;
  the entry point is called; the result is reported.
\<close>

definition main :: "'f BundleEnv \<Rightarrow> BundleConfig \<Rightarrow> string list \<Rightarrow> Effects outcome" where
  "main env lenet_mnist_config argv =
     (let inputImageFilenames = tl argv in
      case initConstantWeights env ''lenet_mnist.weights'' lenet_mnist_config of
        Inl e \<Rightarrow> Abort e \<lparr>entryCalls = [], printed = None\<rparr>
      | Inr constantWeightVarsAddr \<Rightarrow>
          (case initMutableWeightVars env inputImageFilenames lenet_mnist_config of
             Inl e \<Rightarrow> Abort e \<lparr>entryCalls = [], printed = None\<rparr>
           | Inr mutableWeightVarsAddr \<Rightarrow>
               (let activationsAddr = initActivations lenet_mnist_config;
                    out = entryPoint env constantWeightVarsAddr mutableWeightVarsAddr activationsAddr;
                    calls = [(constantWeightVarsAddr, mutableWeightVarsAddr, activationsAddr)]
                in case dumpInferenceResults env lenet_mnist_config
                          (written mutableWeightVarsAddr (fst out)) of
                     None \<Rightarrow> Abort OutOfBounds \<lparr>entryCalls = calls, printed = None\<rparr>
                   | Some maxIdx \<Rightarrow> Done \<lparr>entryCalls = calls, printed = Some maxIdx\<rparr>)))"

text \<open>
  Modelled from the spec: the bundle's variable layout is not under src/
  (\<^verbatim>\<open>BundleConfig\<close> holds three sizes and nothing else). Section 9 of the
  specification describes it as "a mapping from variable name to {region, offset, size,
  element kind}"; for the mutable region that is a name, an offset and a size, and the
  bytes of a variable are those the layout designates.
\<close>

type_synonym BundleLayout = "string \<rightharpoonup> nat \<times> nat"

definition declaredBytes :: "BundleLayout \<Rightarrow> string \<Rightarrow> byte list \<Rightarrow> byte list option" where
  "declaredBytes layout name buf =
     (case layout name of
        None \<Rightarrow> None
      | Some (offset, len) \<Rightarrow> Some (take len (drop offset buf)))"

section \<open>The pipeline as the specification words it\<close>

text \<open>
  The stages of section 4.2 of the specification, in its order: reset, verify,
  optimize, the pre-lowering hook (and a second optimize when it reports a mutation),
  lower, optimize, the post-lowering hook (and an optimize when it reports a mutation),
  bind the IR container, generate the IR, optimize the IR.
\<close>

definition specPipeline :: "BackendKind \<Rightarrow> nat \<Rightarrow> CompilationMode \<Rightarrow> bool \<Rightarrow> bool \<Rightarrow> event list" where
  "specPipeline k F m preMutated postMutated =
     [CallClear, CallCreateBackend k, CallVerify F, CallOptimize F m, CallTransformPreLowering F m]
     @ (if preMutated then [CallOptimize F m] else [])
     @ [CallLower F m, CallOptimize F m, CallTransformPostLowering F m]
     @ (if postMutated then [CallOptimize F m] else [])
     @ [CallSetGraph F, CallGenerateIR, CallOptimizeIR m]"

section \<open>A concrete engine\<close>

text \<open>
  Collaborators whose graphs are the list of the passes applied so far, and an engine
  with a Public variable at address 0, a Private one at address 1 and a Function at
  address 0. The theorems below are instantiated on them.
\<close>

definition exampleCollaborators :: "(string list, nat, nat, nat) Collaborators" where
  "exampleCollaborators =
     \<lparr>createBackend = (\<lambda>k. 0),
      Function_verify = (\<lambda>g. g \<noteq> [''invalid'']),
      optimizeGraph = (\<lambda>g m. g @ [''optimize'']),
      transformPreLowering = (\<lambda>b g m. (True, g @ [''pre''])),
      lowerGraph = (\<lambda>g m b. g @ [''lower'']),
      transformPostLowering = (\<lambda>b g m. (False, g)),
      IRFunction_generateIR = (\<lambda>g ir. ir\<lparr>instrs := [length g], weights := [0, 1]\<rparr>),
      optimizeIR = (\<lambda>ir m b. ir\<lparr>weights := [0]\<rparr>),
      Backend_init = (\<lambda>b ir. Suc b),
      Backend_save = (\<lambda>b ir d. b),
      doForwardPass = (\<lambda>b ir vs. vs)\<rparr>"

definition exampleInput :: Tensor where
  "exampleInput = \<lparr>elemTy = FloatTy, dims = [1, 1], bytes = [9, 9, 9, 9]\<rparr>"

definition exampleDataset :: Tensor where
  "exampleDataset = \<lparr>elemTy = FloatTy, dims = [3, 1], bytes = [1, 1, 1, 1, 2, 2, 2, 2, 3, 3, 3, 3]\<rparr>"

definition examplePublic :: Variable where
  "examplePublic = \<lparr>visibility = Public, payload = \<lparr>elemTy = FloatTy, dims = [1, 1], bytes = [0, 0, 0, 0]\<rparr>\<rparr>"

definition examplePrivate :: Variable where
  "examplePrivate = \<lparr>visibility = Private, payload = \<lparr>elemTy = FloatTy, dims = [1, 1], bytes = [5, 5, 5, 5]\<rparr>\<rparr>"

definition exampleIR :: "(nat, nat) IRFunction" where
  "exampleIR = \<lparr>graph = Some 0, instrs = [7], weights = [0]\<rparr>"

definition exampleEngine :: "(string list, nat, nat, nat) ExecutionEngine" where
  "exampleEngine =
     \<lparr>eeBackendKind = Interpreter,
      eeM = \<lparr>variables = [0 \<mapsto> examplePublic, 1 \<mapsto> examplePrivate], funcs = [0 \<mapsto> []]\<rparr>,
      eeIR = Some exampleIR,
      eeBackend = 5,
      trace = []\<rparr>"



definition exampleProcess :: "(string list, nat, nat, nat) Process" where
  "exampleProcess = \<lparr>trainCounter = 0, engines = (\<lambda>this. exampleEngine)\<rparr>"

text \<open>
  A bundle of 4 bytes of constant weights, 6400 bytes of mutable weights (the image of
  3136 bytes twice, and 128 bytes behind) and 8 bytes of activations; a float is read as
  its first byte; the entry point stores the byte 7 at offset 6364, which is the float
  \<^verbatim>\<open>results[1]\<close> of the consumer.
\<close>

definition exampleConfig :: BundleConfig where
  "exampleConfig = \<lparr>constantWeightVarsMemSize = 4, mutableWeightVarsMemSize = 6400, activationsMemSize = 8\<rparr>"

definition exampleBundleEnv :: "nat BundleEnv" where
  "exampleBundleEnv =
     \<lparr>weightsFiles = [''lenet_mnist.weights'' \<mapsto> [1, 2, 3, 4], ''short.weights'' \<mapsto> [1, 2, 3]],
      pngSize = (\<lambda>f. Some (28, 28)),
      pngPixels = (\<lambda>f k. 1),
      entryPoint = (\<lambda>c m a. (m[6364 := 7], a)),
      toFloat = (\<lambda>bs. unat (hd bs)),
      greater = (\<lambda>x y. y < x),
      zeroFloat = 0\<rparr>"

definition smallConfig :: BundleConfig where
  "smallConfig = \<lparr>constantWeightVarsMemSize = 4, mutableWeightVarsMemSize = 80, activationsMemSize = 8\<rparr>"

text \<open>
  A layout that declares the results at offset 0 of a mutable region of 80 bytes, and
  a buffer whose largest float is \<^verbatim>\<open>results[3]\<close> in the declared bytes and
  \<^verbatim>\<open>results[5]\<close> in the last 40 bytes.
\<close>

definition exampleLayout :: BundleLayout where
  "exampleLayout = [''results'' \<mapsto> (0, 40), ''data'' \<mapsto> (40, 40)]"

definition exampleMutable :: "byte list" where
  "exampleMutable =
     [0, 0, 0, 0, 0, 0, 0, 0, 0, 0, 0, 0, 9, 0, 0, 0, 0, 0, 0, 0,
      0, 0, 0, 0, 0, 0, 0, 0, 0, 0, 0, 0, 0, 0, 0, 0, 0, 0, 0, 0,
      0, 0, 0, 0, 0, 0, 0, 0, 0, 0, 0, 0, 0, 0, 0, 0, 0, 0, 0, 0,
      9, 0, 0, 0, 0, 0, 0, 0, 0, 0, 0, 0, 0, 0, 0, 0, 0, 0, 0, 0]"

section \<open>Verified properties of the execution engine\<close>

lemma reset_fields:
  "eeM (reset env E) = eeM E"
  "eeBackendKind (reset env E) = eeBackendKind E"
  "eeBackend (reset env E) = createBackend env (eeBackendKind E)"
  "eeIR (reset env E) = map_option IRFunction_clear (eeIR E)"
  "trace (reset env E) = trace E @ (case eeIR E of None \<Rightarrow> [] | Some ir \<Rightarrow> [CallClear]) @ [CallCreateBackend (eeBackendKind E)]"
  by (simp_all add: reset_def record_call_def Let_def split: option.splits)

text \<open>
  Claim C5. \<open>reset\<close> leaves the Module as it was (every variable, under the same
  address, with the same payload, and every function), clears the instructions and the
  declarations of the IR container, and replaces the Backend by a newly created one of
  the engine's kind, whatever state the previous Backend was in.
\<close>

theorem reset_clears_IR_and_backend_keeps_Module:
  "eeM (reset env E) = eeM E
   \<and> eeIR (reset env E) = map_option IRFunction_clear (eeIR E)
   \<and> (\<forall>ir. eeIR (reset env E) = Some ir \<longrightarrow> instrs ir = [] \<and> weights ir = [])
   \<and> eeBackend (reset env E) = createBackend env (eeBackendKind E)
   \<and> eeBackend (reset env (E\<lparr>eeBackend := b\<rparr>)) = eeBackend (reset env E)"
  by (auto simp add: reset_fields IRFunction_clear_def)

theorem reset_clears_IR_and_backend_keeps_Module_witness:
  "eeM (reset exampleCollaborators exampleEngine) = eeM exampleEngine
   \<and> eeIR (reset exampleCollaborators exampleEngine) = Some \<lparr>graph = Some 0, instrs = [], weights = []\<rparr>
   \<and> eeBackend exampleEngine = 5
   \<and> eeBackend (reset exampleCollaborators exampleEngine) = 0"
  using reset_clears_IR_and_backend_keeps_Module [of exampleCollaborators exampleEngine 5]
  by (simp add: exampleEngine_def exampleCollaborators_def exampleIR_def IRFunction_clear_def)

text \<open>
  Claim C6. On an engine whose IR container holds no instructions, \<open>run\<close> and
  \<open>runBatch\<close> both end in a failure, in the state they were called in: no variable
  has been bound, no forward pass has run and the sample counter has not moved.
\<close>

theorem run_and_runBatch_reject_empty_IR:
  assumes "eeIR E = Some ir" and "instrs ir = []"
  shows "(\<exists>e. run env vars inputs E = Abort e E)
       \<and> (\<exists>e. runBatch env k vars inputs (c, E) = Abort e (c, E))"
  using assms by (simp add: run_def runBatch_def)

theorem run_and_runBatch_reject_empty_IR_witness:
  "eeIR (reset exampleCollaborators exampleEngine) = Some \<lparr>graph = Some 0, instrs = [], weights = []\<rparr>
   \<and> run exampleCollaborators [0] [exampleInput] (reset exampleCollaborators exampleEngine)
       = Abort NoInstructions (reset exampleCollaborators exampleEngine)
   \<and> runBatch exampleCollaborators 1 [0] [exampleInput] (0, reset exampleCollaborators exampleEngine)
       = Abort NoInstructions (0, reset exampleCollaborators exampleEngine)"
proof -
  have ir: "eeIR (reset exampleCollaborators exampleEngine) = Some \<lparr>graph = Some 0, instrs = [], weights = []\<rparr>"
    by (simp add: reset_fields exampleEngine_def exampleIR_def IRFunction_clear_def)
  have "run exampleCollaborators [0] [exampleInput] (reset exampleCollaborators exampleEngine)
          = Abort NoInstructions (reset exampleCollaborators exampleEngine)"
    by (simp add: run_def ir)
  moreover have "runBatch exampleCollaborators 1 [0] [exampleInput] (0, reset exampleCollaborators exampleEngine)
          = Abort NoInstructions (0, reset exampleCollaborators exampleEngine)"
    by (simp add: runBatch_def ir)
  ultimately show ?thesis
    using ir run_and_runBatch_reject_empty_IR [OF ir, of exampleCollaborators "[0]" "[exampleInput]" 1 0]
    by simp
qed

lemma generateIR_tail_Some:
  "eeIR E = Some ir \<Longrightarrow>
   generateIR_tail env m F g E =
     Done (E\<lparr>eeIR := Some (optimizeIR env (IRFunction_generateIR env g (ir\<lparr>graph := Some F\<rparr>)) m (eeBackend E)),
             trace := trace E @ [CallSetGraph F, CallGenerateIR, CallOptimizeIR m]\<rparr>)"
  by (simp add: generateIR_tail_def Let_def record_call_def)

lemma graphPass_fields:
  "eeIR (graphPass ev F g E) = eeIR E"
  "eeBackend (graphPass ev F g E) = eeBackend E"
  "eeBackendKind (graphPass ev F g E) = eeBackendKind E"
  "trace (graphPass ev F g E) = trace E @ [ev]"
  "variables (eeM (graphPass ev F g E)) = variables (eeM E)"
  "funcs (eeM (graphPass ev F g E)) = (funcs (eeM E))(F \<mapsto> g)"
  by (simp_all add: graphPass_def setFunction_def record_call_def)

text \<open>
  Claim C1. For every mode \<open>m\<close> and every Function \<open>F\<close> of the Module, on an engine
  with an IR container: if \<open>F\<close> passes verification, \<open>generateIR\<close> completes and the
  calls it has made are exactly the stages of the specification, in its order, with a
  re-optimization after a Backend hook exactly when the hook reported a mutation; the
  Function and the IR container it leaves are the results of these stages composed in
  that order. If \<open>F\<close> fails verification, \<open>generateIR\<close> ends in a failure after
  the reset and the verification, with the Function unchanged.
\<close>

theorem generateIR_pipeline_order:
  assumes ir: "eeIR E = Some ir" and F: "funcs (eeM E) F = Some g"
  shows
   "(let b = createBackend env (eeBackendKind E);
         g1 = optimizeGraph env g m;
         pre = transformPreLowering env b g1 m;
         g3 = (if fst pre then optimizeGraph env (snd pre) m else snd pre);
         g6 = optimizeGraph env (lowerGraph env g3 m b) m;
         post = transformPostLowering env b g6 m;
         g8 = (if fst post then optimizeGraph env (snd post) m else snd post)
     in if Function_verify env g
        then \<exists>E'. generateIR env m F E = Done E'
               \<and> trace E' = trace E @ specPipeline (eeBackendKind E) F m (fst pre) (fst post)
               \<and> funcs (eeM E') F = Some g8
               \<and> eeIR E' = Some (optimizeIR env (IRFunction_generateIR env g8 ((IRFunction_clear ir)\<lparr>graph := Some F\<rparr>)) m b)
        else \<exists>E'. generateIR env m F E = Abort VerificationFailed E'
               \<and> trace E' = trace E @ [CallClear, CallCreateBackend (eeBackendKind E), CallVerify F]
               \<and> funcs (eeM E') F = Some g)"
  using assms
  by (simp add: generateIR_def Let_def reset_fields graphPass_fields generateIR_tail_Some specPipeline_def record_call_def)

theorem generateIR_pipeline_order_witness:
  "eeIR exampleEngine = Some exampleIR \<and> funcs (eeM exampleEngine) 0 = Some []
   \<and> (\<exists>E'. generateIR exampleCollaborators Infer 0 exampleEngine = Done E'
        \<and> trace E' = [CallClear, CallCreateBackend Interpreter, CallVerify 0, CallOptimize 0 Infer,
                       CallTransformPreLowering 0 Infer, CallOptimize 0 Infer, CallLower 0 Infer,
                       CallOptimize 0 Infer, CallTransformPostLowering 0 Infer,
                       CallSetGraph 0, CallGenerateIR, CallOptimizeIR Infer]
        \<and> funcs (eeM E') 0 = Some [''optimize'', ''pre'', ''optimize'', ''lower'', ''optimize'']
        \<and> eeIR E' = Some \<lparr>graph = Some 0, instrs = [5], weights = [0]\<rparr>)"
proof -
  have ir: "eeIR exampleEngine = Some exampleIR" and F: "funcs (eeM exampleEngine) 0 = Some []"
    by (simp_all add: exampleEngine_def)
  show ?thesis
    using ir F generateIR_pipeline_order [OF ir F, of exampleCollaborators Infer]
    by (simp add: exampleCollaborators_def exampleEngine_def exampleIR_def specPipeline_def
        IRFunction_clear_def Let_def eval_nat_numeral)
qed

lemma loadValueFromTensor_Done:
  "loadValueFromTensor v t E = Done E' \<longleftrightarrow>
     (\<exists>var. variables (eeM E) v = Some var \<and> dims (payload var) = dims t
        \<and> E' = record_call (CallCopyFrom v t) (setPayload v var t E))"
  by (auto simp add: loadValueFromTensor_def Tensor_copyFrom_def split: option.splits)

lemma loadValueFromTensor_Abort:
  "loadValueFromTensor v t E = Abort e E' \<Longrightarrow> E' = E"
  by (auto simp add: loadValueFromTensor_def split: option.splits if_splits)

lemma bound_fields:
  "eeIR (record_call ev (setPayload v var t E)) = eeIR E"
  "eeBackend (record_call ev (setPayload v var t E)) = eeBackend E"
  "eeBackendKind (record_call ev (setPayload v var t E)) = eeBackendKind E"
  "funcs (eeM (record_call ev (setPayload v var t E))) = funcs (eeM E)"
  "trace (record_call ev (setPayload v var t E)) = trace E @ [ev]"
  "variables (eeM (record_call ev (setPayload v var t E))) = (variables (eeM E))(v \<mapsto> var\<lparr>payload := t\<rparr>)"
  by (simp_all add: record_call_def setPayload_def)

lemma run_loop_Cons_Done:
  "run_loop (v # vs) ts E = Done E' \<longleftrightarrow>
     (\<exists>t ts' var. ts = t # ts' \<and> variables (eeM E) v = Some var \<and> visibility var = Public
        \<and> dims (payload var) = dims t
        \<and> run_loop vs ts' (record_call (CallCopyFrom v t) (setPayload v var t E)) = Done E')"
  by (cases ts) (auto simp add: loadValueFromTensor_def Tensor_copyFrom_def split: option.splits)

lemma run_loop_frame:
  "run_loop vs ts E = Done E' \<Longrightarrow>
     length vs \<le> length ts \<and> eeIR E' = eeIR E \<and> eeBackend E' = eeBackend E
     \<and> eeBackendKind E' = eeBackendKind E \<and> funcs (eeM E') = funcs (eeM E)
     \<and> trace E' = trace E @ map2 CallCopyFrom vs ts
     \<and> (\<forall>u. u \<notin> set vs \<longrightarrow> variables (eeM E') u = variables (eeM E) u)"
proof (induction vs arbitrary: ts E)
  case Nil
  then show ?case by simp
next
  case (Cons v vs)
  from Cons.prems obtain t ts' var where
    ts: "ts = t # ts'" and
    rest: "run_loop vs ts' (record_call (CallCopyFrom v t) (setPayload v var t E)) = Done E'"
    unfolding run_loop_Cons_Done by blast
  from Cons.IH [OF rest] show ?case
    by (simp add: ts bound_fields)
qed

lemma run_loop_requires:
  "run_loop vs ts E = Done E' \<Longrightarrow> i < length vs \<Longrightarrow>
     \<exists>var. variables (eeM E) (vs ! i) = Some var \<and> visibility var = Public
        \<and> dims (payload var) = dims (ts ! i)"
proof (induction vs arbitrary: ts E i)
  case Nil
  then show ?case by simp
next
  case (Cons v vs)
  from Cons.prems(1) obtain t ts' var where
    ts: "ts = t # ts'" and var: "variables (eeM E) v = Some var" and
    pub: "visibility var = Public" and shape: "dims (payload var) = dims t" and
    rest: "run_loop vs ts' (record_call (CallCopyFrom v t) (setPayload v var t E)) = Done E'"
    unfolding run_loop_Cons_Done by blast
  show ?case
  proof (cases i)
    case 0
    then show ?thesis using var pub shape ts by simp
  next
    case (Suc k)
    with Cons.prems(2) have k: "k < length vs" by simp
    from Cons.IH [OF rest k] obtain var' where
      v': "((variables (eeM E))(v \<mapsto> var\<lparr>payload := t\<rparr>)) (vs ! k) = Some var'" and
      p': "visibility var' = Public" and s': "dims (payload var') = dims (ts' ! k)"
      by (auto simp add: bound_fields)
    show ?thesis
    proof (cases "vs ! k = v")
      case True
      with v' have "var' = var\<lparr>payload := t\<rparr>" by simp
      with s' shape pub var True show ?thesis by (simp add: Suc ts)
    next
      case False
      with v' p' s' show ?thesis by (simp add: Suc ts)
    qed
  qed
qed

lemma run_loop_last_binding:
  "run_loop vs ts E = Done E' \<Longrightarrow> i < length vs \<Longrightarrow>
   (\<forall>j<length vs. i < j \<longrightarrow> vs ! j \<noteq> vs ! i) \<Longrightarrow>
     \<exists>var. variables (eeM E') (vs ! i) = Some var \<and> payload var = ts ! i"
proof (induction vs arbitrary: ts E i)
  case Nil
  then show ?case by simp
next
  case (Cons v vs)
  from Cons.prems(1) obtain t ts' var where
    ts: "ts = t # ts'" and
    rest: "run_loop vs ts' (record_call (CallCopyFrom v t) (setPayload v var t E)) = Done E'"
    unfolding run_loop_Cons_Done by blast
  show ?case
  proof (cases i)
    case 0
    have "v \<notin> set vs"
    proof
      assume "v \<in> set vs"
      then obtain k where "k < length vs" "vs ! k = v" by (auto simp add: in_set_conv_nth)
      with Cons.prems(3) [rule_format, of "Suc k"] 0 show False by simp
    qed
    with run_loop_frame [OF rest] have "variables (eeM E') v = Some (var\<lparr>payload := t\<rparr>)"
      by (simp add: bound_fields)
    then show ?thesis using 0 ts by simp
  next
    case (Suc k)
    with Cons.prems(2) have k: "k < length vs" by simp
    have nodup: "\<forall>j<length vs. k < j \<longrightarrow> vs ! j \<noteq> vs ! k"
    proof (intro allI impI)
      fix j assume "j < length vs" "k < j"
      with Cons.prems(3) [rule_format, of "Suc j"] Suc show "vs ! j \<noteq> vs ! k" by simp
    qed
    from Cons.IH [OF rest k nodup] show ?thesis by (simp add: Suc ts)
  qed
qed

lemma run_loop_each_binding:
  "run_loop vs ts E = Done E' \<Longrightarrow> i < length vs \<Longrightarrow>
     \<exists>Ei var. run_loop (take (Suc i) vs) (take (Suc i) ts) E = Done Ei
        \<and> variables (eeM Ei) (vs ! i) = Some var \<and> payload var = ts ! i"
proof (induction vs arbitrary: ts E i)
  case Nil
  then show ?case by simp
next
  case (Cons v vs)
  from Cons.prems(1) obtain t ts' var where
    ts: "ts = t # ts'" and var: "variables (eeM E) v = Some var" and
    pub: "visibility var = Public" and shape: "dims (payload var) = dims t" and
    rest: "run_loop vs ts' (record_call (CallCopyFrom v t) (setPayload v var t E)) = Done E'"
    unfolding run_loop_Cons_Done by blast
  show ?case
  proof (cases i)
    case 0
    then show ?thesis using var pub shape ts
      by (simp add: loadValueFromTensor_def Tensor_copyFrom_def bound_fields)
  next
    case (Suc k)
    with Cons.prems(2) have k: "k < length vs" by simp
    from Cons.IH [OF rest k] show ?thesis using var pub shape ts Suc
      by (simp add: loadValueFromTensor_def Tensor_copyFrom_def)
  qed
qed

lemma run_loop_step:
  "variables (eeM E) v = Some var \<Longrightarrow> visibility var = Public \<Longrightarrow> dims (payload var) = dims t \<Longrightarrow>
     run_loop (v # vs) (t # ts) E = run_loop vs ts (record_call (CallCopyFrom v t) (setPayload v var t E))"
  by (simp add: loadValueFromTensor_def Tensor_copyFrom_def)

lemma run_loop_stop:
  "variables (eeM E) v = None \<or> (\<exists>var. variables (eeM E) v = Some var \<and>
      (visibility var \<noteq> Public \<or> dims (payload var) \<noteq> dims t)) \<Longrightarrow>
     state_of (run_loop (v # vs) (t # ts) E) = E"
  by (auto simp add: loadValueFromTensor_def)

lemma run_loop_only_copies:
  "\<exists>new. trace (state_of (run_loop vs ts E)) = trace E @ new \<and> CallDoForwardPass \<notin> set new"
proof (induction vs ts E rule: run_loop.induct)
  case (1 inputs E)
  then show ?case by simp
next
  case (2 v vs t ts E)
  show ?case
  proof (cases "\<exists>var. variables (eeM E) v = Some var \<and> visibility var = Public \<and> dims (payload var) = dims t")
    case False
    then have "state_of (run_loop (v # vs) (t # ts) E) = E"
      by (intro run_loop_stop) (cases "variables (eeM E) v"; auto)
    then show ?thesis by simp
  next
    case True
    then obtain var where var: "variables (eeM E) v = Some var" and pub: "visibility var = Public"
      and shape: "dims (payload var) = dims t" by blast
    let ?E1 = "record_call (CallCopyFrom v t) (setPayload v var t E)"
    have l: "loadValueFromTensor v t E = Done ?E1"
      using var shape by (simp add: loadValueFromTensor_Done)
    from 2 [OF var _ l] pub obtain new where
      "trace (state_of (run_loop vs ts ?E1)) = trace ?E1 @ new" "CallDoForwardPass \<notin> set new"
      by auto
    then show ?thesis
      by (simp add: run_loop_step [OF var pub shape] bound_fields del: run_loop.simps)
  qed
next
  case (3 v vs E)
  then show ?case by simp
qed

lemma run_loop_private_untouched:
  "variables (eeM E) u = Some pv \<Longrightarrow> visibility pv = Private \<Longrightarrow>
     variables (eeM (state_of (run_loop vs ts E))) u = Some pv"
proof (induction vs ts E rule: run_loop.induct)
  case (1 inputs E)
  then show ?case by simp
next
  case (2 v vs t ts E)
  show ?case
  proof (cases "\<exists>var. variables (eeM E) v = Some var \<and> visibility var = Public \<and> dims (payload var) = dims t")
    case False
    then have "state_of (run_loop (v # vs) (t # ts) E) = E"
      by (intro run_loop_stop) (cases "variables (eeM E) v"; auto)
    then show ?thesis using 2(2) by simp
  next
    case True
    then obtain var where var: "variables (eeM E) v = Some var" and pub: "visibility var = Public"
      and shape: "dims (payload var) = dims t" by blast
    let ?E1 = "record_call (CallCopyFrom v t) (setPayload v var t E)"
    have l: "loadValueFromTensor v t E = Done ?E1"
      using var shape by (simp add: loadValueFromTensor_Done)
    have "u \<noteq> v" using var pub 2(2,3) by auto
    then have u1: "variables (eeM ?E1) u = Some pv" using 2(2) by (simp add: bound_fields)
    from 2(1) [OF var _ l u1 2(3)] pub
    show ?thesis by (simp add: run_loop_step [OF var pub shape] del: run_loop.simps)
  qed
next
  case (3 v vs E)
  then show ?case by simp
qed

lemma run_loop_private_Abort:
  "v \<in> set vs \<Longrightarrow> length ts = length vs \<Longrightarrow> variables (eeM E) v = Some pv \<Longrightarrow> visibility pv = Private \<Longrightarrow>
     \<exists>e Ea. run_loop vs ts E = Abort e Ea"
proof -
  assume a: "v \<in> set vs" "length ts = length vs" "variables (eeM E) v = Some pv" "visibility pv = Private"
  show ?thesis
  proof (cases "run_loop vs ts E")
    case (Done E')
    from a(1) obtain i where i: "i < length vs" "vs ! i = v" by (auto simp add: in_set_conv_nth)
    from run_loop_requires [OF Done i(1)] a(3,4) i(2) show ?thesis by simp
  next
    case (Abort e Ea)
    then show ?thesis by blast
  qed
qed

text \<open>
  Claim C2. A call of \<open>run\<close> that completes had as many inputs as variables, every
  target variable Public and of the shape of its input; the copy for index \<open>i\<close>
  leaves the payload of \<open>vars ! i\<close> equal to \<open>inputs ! i\<close>, and that payload is the
  one the forward pass sees unless a later index names the same variable again; no
  other variable is written; the calls are the copies, in order, followed by exactly
  one forward pass. A call with sizes that differ is rejected at once, and a call that
  names a Private variable is rejected without a forward pass and without writing to
  any Private variable.
\<close>

theorem run_binds_public_variables_then_one_forward_pass:
  "(run env vars inputs E = Done E' \<longrightarrow>
      length inputs = length vars
    \<and> (\<forall>i<length vars. \<exists>var. variables (eeM E) (vars ! i) = Some var
          \<and> visibility var = Public \<and> dims (payload var) = dims (inputs ! i))
    \<and> (\<exists>Ec ir. run_loop vars inputs E = Done Ec \<and> eeIR E = Some ir
          \<and> trace Ec = trace E @ map2 CallCopyFrom vars inputs
          \<and> (\<forall>i<length vars. \<exists>Ei var.
                 run_loop (take (Suc i) vars) (take (Suc i) inputs) E = Done Ei
                 \<and> variables (eeM Ei) (vars ! i) = Some var \<and> payload var = inputs ! i)
          \<and> (\<forall>i<length vars. (\<forall>j<length vars. i < j \<longrightarrow> vars ! j \<noteq> vars ! i) \<longrightarrow>
                 (\<exists>var. variables (eeM Ec) (vars ! i) = Some var \<and> payload var = inputs ! i))
          \<and> (\<forall>u. u \<notin> set vars \<longrightarrow> variables (eeM Ec) u = variables (eeM E) u)
          \<and> trace E' = trace E @ map2 CallCopyFrom vars inputs @ [CallDoForwardPass]
          \<and> variables (eeM E') = doForwardPass env (eeBackend E) ir (variables (eeM Ec))))
   \<and> (length inputs \<noteq> length vars \<longrightarrow> run env vars inputs E = Abort SizeMismatch E)
   \<and> ((\<exists>v\<in>set vars. \<exists>pv. variables (eeM E) v = Some pv \<and> visibility pv = Private) \<longrightarrow>
        (\<exists>e Ea. run env vars inputs E = Abort e Ea
           \<and> CallDoForwardPass \<notin> set (drop (length (trace E)) (trace Ea))
           \<and> (\<forall>v\<in>set vars. \<forall>pv. variables (eeM E) v = Some pv \<and> visibility pv = Private
                 \<longrightarrow> variables (eeM Ea) v = Some pv)))"
proof (intro conjI impI)
  assume d: "run env vars inputs E = Done E'"
  then have len: "length inputs = length vars"
    by (auto simp add: run_def split: if_splits)
  from d len obtain ir Ec where ir: "eeIR E = Some ir" and
    loop: "run_loop vars inputs E = Done Ec" and E': "E' = forwardPass env ir Ec"
    by (auto simp add: run_def split: if_splits option.splits outcome.splits)
  show "length inputs = length vars" by (fact len)
  show "\<forall>i<length vars. \<exists>var. variables (eeM E) (vars ! i) = Some var
          \<and> visibility var = Public \<and> dims (payload var) = dims (inputs ! i)"
    using run_loop_requires [OF loop] by blast
  note fr = run_loop_frame [OF loop]
  have t': "trace E' = trace E @ map2 CallCopyFrom vars inputs @ [CallDoForwardPass]"
    using fr by (simp add: E' forwardPass_def record_call_def)
  have v': "variables (eeM E') = doForwardPass env (eeBackend E) ir (variables (eeM Ec))"
    using fr by (simp add: E' forwardPass_def record_call_def)
  show "\<exists>Ec ir. run_loop vars inputs E = Done Ec \<and> eeIR E = Some ir
          \<and> trace Ec = trace E @ map2 CallCopyFrom vars inputs
          \<and> (\<forall>i<length vars. \<exists>Ei var.
                 run_loop (take (Suc i) vars) (take (Suc i) inputs) E = Done Ei
                 \<and> variables (eeM Ei) (vars ! i) = Some var \<and> payload var = inputs ! i)
          \<and> (\<forall>i<length vars. (\<forall>j<length vars. i < j \<longrightarrow> vars ! j \<noteq> vars ! i) \<longrightarrow>
                 (\<exists>var. variables (eeM Ec) (vars ! i) = Some var \<and> payload var = inputs ! i))
          \<and> (\<forall>u. u \<notin> set vars \<longrightarrow> variables (eeM Ec) u = variables (eeM E) u)
          \<and> trace E' = trace E @ map2 CallCopyFrom vars inputs @ [CallDoForwardPass]
          \<and> variables (eeM E') = doForwardPass env (eeBackend E) ir (variables (eeM Ec))"
    using loop ir fr t' v' run_loop_each_binding [OF loop] run_loop_last_binding [OF loop]
    by (intro exI [of _ Ec] exI [of _ ir] conjI) blast+
next
  assume "length inputs \<noteq> length vars"
  then show "run env vars inputs E = Abort SizeMismatch E" by (simp add: run_def)
next
  assume p: "\<exists>v\<in>set vars. \<exists>pv. variables (eeM E) v = Some pv \<and> visibility pv = Private"
  have nd: "\<And>E''. run env vars inputs E \<noteq> Done E''"
  proof
    fix E'' assume d: "run env vars inputs E = Done E''"
    then have len: "length inputs = length vars" by (auto simp add: run_def split: if_splits)
    from d len obtain Ec where "run_loop vars inputs E = Done Ec"
      by (auto simp add: run_def split: if_splits option.splits outcome.splits)
    moreover from p len obtain e Ea where "run_loop vars inputs E = Abort e Ea"
      using run_loop_private_Abort by blast
    ultimately show False by simp
  qed
  then obtain e Ea where ab: "run env vars inputs E = Abort e Ea"
    by (cases "run env vars inputs E") auto
  have st: "Ea = E \<or> Ea = state_of (run_loop vars inputs E)"
    using ab by (auto simp add: run_def split: if_splits option.splits outcome.splits)
  have nf: "CallDoForwardPass \<notin> set (drop (length (trace E)) (trace Ea))"
    using st run_loop_only_copies [of vars inputs E] by auto
  have keep: "\<forall>v\<in>set vars. \<forall>pv. variables (eeM E) v = Some pv \<and> visibility pv = Private
                 \<longrightarrow> variables (eeM Ea) v = Some pv"
    using st run_loop_private_untouched [of E _ _ vars inputs] by auto
  from ab nf keep show "\<exists>e Ea. run env vars inputs E = Abort e Ea
           \<and> CallDoForwardPass \<notin> set (drop (length (trace E)) (trace Ea))
           \<and> (\<forall>v\<in>set vars. \<forall>pv. variables (eeM E) v = Some pv \<and> visibility pv = Private
                 \<longrightarrow> variables (eeM Ea) v = Some pv)"
    by blast
qed

theorem run_binds_public_variables_then_one_forward_pass_witness:
  "run exampleCollaborators [0] [exampleInput] exampleEngine
     = Done (exampleEngine\<lparr>eeM := (eeM exampleEngine)\<lparr>variables := [0 \<mapsto> examplePublic\<lparr>payload := exampleInput\<rparr>, 1 \<mapsto> examplePrivate]\<rparr>,
                           trace := [CallCopyFrom 0 exampleInput, CallDoForwardPass]\<rparr>)
   \<and> run exampleCollaborators [0] [] exampleEngine = Abort SizeMismatch exampleEngine
   \<and> (\<exists>e Ea. run exampleCollaborators [0, 1] [exampleInput, exampleInput] exampleEngine = Abort e Ea
         \<and> variables (eeM Ea) 1 = Some examplePrivate)"
proof -
  let ?E' = "exampleEngine\<lparr>eeM := (eeM exampleEngine)\<lparr>variables := [0 \<mapsto> examplePublic\<lparr>payload := exampleInput\<rparr>, 1 \<mapsto> examplePrivate]\<rparr>,
                           trace := [CallCopyFrom 0 exampleInput, CallDoForwardPass]\<rparr>"
  have d: "run exampleCollaborators [0] [exampleInput] exampleEngine = Done ?E'"
    by (simp add: run_def run_loop.simps loadValueFromTensor_def Tensor_copyFrom_def forwardPass_def
        record_call_def setPayload_def exampleEngine_def exampleCollaborators_def exampleIR_def
        examplePublic_def exampleInput_def fun_upd_twist)
  have p: "\<exists>v\<in>set [0, 1]. \<exists>pv. variables (eeM exampleEngine) v = Some pv \<and> visibility pv = Private"
    by (simp add: exampleEngine_def examplePrivate_def)
  have v1: "variables (eeM exampleEngine) 1 = Some examplePrivate \<and> visibility examplePrivate = Private"
    by (simp add: exampleEngine_def examplePrivate_def)
  from run_binds_public_variables_then_one_forward_pass
         [of exampleCollaborators "[0, 1]" "[exampleInput, exampleInput]" exampleEngine] p
  obtain e Ea where
    "run exampleCollaborators [0, 1] [exampleInput, exampleInput] exampleEngine = Abort e Ea"
    "\<forall>v\<in>set [0, 1]. \<forall>pv. variables (eeM exampleEngine) v = Some pv \<and> visibility pv = Private
        \<longrightarrow> variables (eeM Ea) v = Some pv"
    by blast
  with v1 have a: "\<exists>e Ea. run exampleCollaborators [0, 1] [exampleInput, exampleInput] exampleEngine = Abort e Ea
         \<and> variables (eeM Ea) 1 = Some examplePrivate"
    by auto
  from run_binds_public_variables_then_one_forward_pass
         [of exampleCollaborators "[0]" "[]" exampleEngine]
  have s: "run exampleCollaborators [0] [] exampleEngine = Abort SizeMismatch exampleEngine"
    by simp
  from d s a show ?thesis by blast
qed

lemma slice_fields:
  "eeIR (record_call ev (setPayload v var t E)) = eeIR E"
  "eeBackend (record_call ev (setPayload v var t E)) = eeBackend E"
  "trace (record_call ev (setPayload v var t E)) = trace E @ [ev]"
  by (simp_all add: record_call_def setPayload_def)

lemma loadValueFromTensorSlice_cases:
  "(\<exists>E'. loadValueFromTensorSlice v t c E = Done E' \<and> eeIR E' = eeIR E \<and> eeBackend E' = eeBackend E
      \<and> trace E' = trace E @ [CallCopyConsecutiveSlices v t (c mod hd (dims t))]
      \<and> dims t \<noteq> [] \<and> hd (dims t) \<noteq> 0)
   \<or> (\<exists>e. loadValueFromTensorSlice v t c E = Abort e E)"
  by (auto simp add: loadValueFromTensorSlice_def Let_def slice_fields split: option.splits)

lemma updateInputs_loop_Done:
  "updateInputs_loop vs ts c E = Done E' \<Longrightarrow>
     eeIR E' = eeIR E \<and> eeBackend E' = eeBackend E
     \<and> trace E' = trace E @ map2 (\<lambda>v t. CallCopyConsecutiveSlices v t (c mod hd (dims t))) vs ts"
proof (induction vs ts c E rule: updateInputs_loop.induct)
  case (1 inputs sampleIdx E)
  then show ?case by simp
next
  case (2 v vs t ts sampleIdx E)
  from loadValueFromTensorSlice_cases [of v t sampleIdx E]
  show ?case
  proof (elim disjE exE conjE)
    fix E1
    assume l: "loadValueFromTensorSlice v t sampleIdx E = Done E1"
      and f: "eeIR E1 = eeIR E" "eeBackend E1 = eeBackend E"
        "trace E1 = trace E @ [CallCopyConsecutiveSlices v t (sampleIdx mod hd (dims t))]"
    from 2(2) l have r: "updateInputs_loop vs ts sampleIdx E1 = Done E'" by simp
    from 2(1) [OF l r] f show ?thesis by simp
  next
    fix e
    assume "loadValueFromTensorSlice v t sampleIdx E = Abort e E"
    with 2(2) show ?thesis by simp
  qed
next
  case (3 v vs sampleIdx E)
  then show ?case by simp
qed

lemma updateInputs_loop_any:
  "\<exists>new. trace (state_of (updateInputs_loop vs ts c E)) = trace E @ new
     \<and> (\<forall>ev\<in>set new. \<exists>v t. ev = CallCopyConsecutiveSlices v t (c mod hd (dims t))
            \<and> dims t \<noteq> [] \<and> hd (dims t) \<noteq> 0)"
proof (induction vs ts c E rule: updateInputs_loop.induct)
  case (1 inputs sampleIdx E)
  then show ?case by simp
next
  case (2 v vs t ts sampleIdx E)
  from loadValueFromTensorSlice_cases [of v t sampleIdx E]
  show ?case
  proof (elim disjE exE conjE)
    fix E1
    assume l: "loadValueFromTensorSlice v t sampleIdx E = Done E1"
      and f: "trace E1 = trace E @ [CallCopyConsecutiveSlices v t (sampleIdx mod hd (dims t))]"
      and nz: "dims t \<noteq> []" "hd (dims t) \<noteq> 0"
    from 2 [OF l] obtain new where
      n: "trace (state_of (updateInputs_loop vs ts sampleIdx E1)) = trace E1 @ new"
      "\<forall>ev\<in>set new. \<exists>v t. ev = CallCopyConsecutiveSlices v t (sampleIdx mod hd (dims t))
            \<and> dims t \<noteq> [] \<and> hd (dims t) \<noteq> 0"
      by blast
    show ?thesis
      apply (rule exI [of _ "CallCopyConsecutiveSlices v t (sampleIdx mod hd (dims t)) # new"])
      using l f nz n by auto
  next
    fix e
    assume "loadValueFromTensorSlice v t sampleIdx E = Abort e E"
    then show ?thesis by simp
  qed
next
  case (3 v vs sampleIdx E)
  then show ?case by simp
qed

lemma updateInputsAndRunNetwork_Done:
  "updateInputsAndRunNetwork env vs ts c E = Done E' \<Longrightarrow>
     eeIR E' = eeIR E \<and> eeBackend E' = eeBackend E
     \<and> trace E' = trace E @ map2 (\<lambda>v t. CallCopyConsecutiveSlices v t (c mod hd (dims t))) vs ts
                     @ [CallDoForwardPass]"
  by (auto simp add: updateInputsAndRunNetwork_def forwardPass_def record_call_def
      split: outcome.splits option.splits dest: updateInputs_loop_Done)

lemma updateInputsAndRunNetwork_any:
  "\<exists>new. trace (state_of (updateInputsAndRunNetwork env vs ts c E)) = trace E @ new
     \<and> (\<forall>ev\<in>set new. ev = CallDoForwardPass \<or>
            (\<exists>v t. ev = CallCopyConsecutiveSlices v t (c mod hd (dims t))
               \<and> dims t \<noteq> [] \<and> hd (dims t) \<noteq> 0))"
proof -
  from updateInputs_loop_any [of vs ts c E] obtain new where
    n: "trace (state_of (updateInputs_loop vs ts c E)) = trace E @ new"
    "\<forall>ev\<in>set new. \<exists>v t. ev = CallCopyConsecutiveSlices v t (c mod hd (dims t))
            \<and> dims t \<noteq> [] \<and> hd (dims t) \<noteq> 0"
    by blast
  show ?thesis
  proof (cases "updateInputs_loop vs ts c E")
    case (Abort e E1)
    with n show ?thesis
      by (intro exI [of _ new]) (auto simp add: updateInputsAndRunNetwork_def)
  next
    case (Done E1)
    show ?thesis
    proof (cases "eeIR E1")
      case None
      with Done n show ?thesis
        by (intro exI [of _ new]) (auto simp add: updateInputsAndRunNetwork_def)
    next
      case (Some ir)
      with Done n show ?thesis
        by (intro exI [of _ "new @ [CallDoForwardPass]"])
           (auto simp add: updateInputsAndRunNetwork_def forwardPass_def record_call_def)
    qed
  qed
qed

lemma upt_Suc_shift: "map f [0..<Suc n] = f 0 # map (\<lambda>i. f (Suc i)) [0..<n]"
  by (simp add: upt_conv_Cons map_Suc_upt [symmetric] del: upt_Suc)

lemma runBatch_loop_Done:
  "runBatch_loop env n vs ts b (c, E) = Done (c', E') \<Longrightarrow>
     c' = c + of_nat n * b \<and> eeIR E' = eeIR E \<and> eeBackend E' = eeBackend E
     \<and> trace E' = trace E @ concat (map (\<lambda>i.
           map2 (\<lambda>v t. CallCopyConsecutiveSlices v t ((c + of_nat i * b) mod hd (dims t))) vs ts
           @ [CallDoForwardPass]) [0..<n])"
proof (induction n arbitrary: c E)
  case 0
  then show ?case by simp
next
  case (Suc n)
  from Suc.prems obtain E1 where
    u: "updateInputsAndRunNetwork env vs ts c E = Done E1" and
    r: "runBatch_loop env n vs ts b (c + b, E1) = Done (c', E')"
    by (auto split: outcome.splits)
  note f = updateInputsAndRunNetwork_Done [OF u]
  note ih = Suc.IH [OF r]
  have a: "\<And>i. c + b + of_nat i * b = c + of_nat (Suc i) * b"
    by (simp add: algebra_simps)
  have "c' = c + of_nat (Suc n) * b" using ih by (simp add: algebra_simps)
  moreover have "trace E' = trace E @ concat (map (\<lambda>i.
           map2 (\<lambda>v t. CallCopyConsecutiveSlices v t ((c + of_nat i * b) mod hd (dims t))) vs ts
           @ [CallDoForwardPass]) [0..<Suc n])"
    unfolding upt_Suc_shift using ih f by (simp add: a)
  ultimately show ?case using ih f by simp
qed

lemma runBatch_loop_any:
  "\<exists>new. trace (snd (state_of (runBatch_loop env n vs ts b (c, E)))) = trace E @ new
     \<and> (\<forall>ev\<in>set new. ev = CallDoForwardPass \<or>
            (\<exists>v t i. i < n \<and> ev = CallCopyConsecutiveSlices v t ((c + of_nat i * b) mod hd (dims t))
               \<and> dims t \<noteq> [] \<and> hd (dims t) \<noteq> 0))"
proof (induction n arbitrary: c E)
  case 0
  then show ?case by simp
next
  case (Suc n)
  from updateInputsAndRunNetwork_any [of env vs ts c E] obtain new1 where
    n1: "trace (state_of (updateInputsAndRunNetwork env vs ts c E)) = trace E @ new1"
    "\<forall>ev\<in>set new1. ev = CallDoForwardPass \<or>
            (\<exists>v t. ev = CallCopyConsecutiveSlices v t (c mod hd (dims t))
               \<and> dims t \<noteq> [] \<and> hd (dims t) \<noteq> 0)"
    by blast
  have g1: "\<forall>ev\<in>set new1. ev = CallDoForwardPass \<or>
            (\<exists>v t i. i < Suc n \<and> ev = CallCopyConsecutiveSlices v t ((c + of_nat i * b) mod hd (dims t))
               \<and> dims t \<noteq> [] \<and> hd (dims t) \<noteq> 0)"
  proof
    fix ev assume "ev \<in> set new1"
    with n1(2) have "ev = CallDoForwardPass \<or>
            (\<exists>v t. ev = CallCopyConsecutiveSlices v t ((c + of_nat 0 * b) mod hd (dims t))
               \<and> dims t \<noteq> [] \<and> hd (dims t) \<noteq> 0)" by simp
    then show "ev = CallDoForwardPass \<or>
            (\<exists>v t i. i < Suc n \<and> ev = CallCopyConsecutiveSlices v t ((c + of_nat i * b) mod hd (dims t))
               \<and> dims t \<noteq> [] \<and> hd (dims t) \<noteq> 0)" by blast
  qed
  show ?case
  proof (cases "updateInputsAndRunNetwork env vs ts c E")
    case (Abort e E1)
    with n1 g1 show ?thesis by (intro exI [of _ new1]) simp
  next
    case (Done E1)
    from Suc.IH [of "c + b" E1] obtain new2 where
      n2: "trace (snd (state_of (runBatch_loop env n vs ts b (c + b, E1)))) = trace E1 @ new2"
      "\<forall>ev\<in>set new2. ev = CallDoForwardPass \<or>
            (\<exists>v t i. i < n \<and> ev = CallCopyConsecutiveSlices v t ((c + b + of_nat i * b) mod hd (dims t))
               \<and> dims t \<noteq> [] \<and> hd (dims t) \<noteq> 0)"
      by blast
    have a: "\<And>i. c + b + of_nat i * b = c + of_nat (Suc i) * b"
      by (simp add: algebra_simps)
    have g2: "\<forall>ev\<in>set new2. ev = CallDoForwardPass \<or>
            (\<exists>v t i. i < Suc n \<and> ev = CallCopyConsecutiveSlices v t ((c + of_nat i * b) mod hd (dims t))
               \<and> dims t \<noteq> [] \<and> hd (dims t) \<noteq> 0)"
    proof
      fix ev assume "ev \<in> set new2"
      with n2(2) consider "ev = CallDoForwardPass"
        | v t i where "i < n" "ev = CallCopyConsecutiveSlices v t ((c + b + of_nat i * b) mod hd (dims t))"
            "dims t \<noteq> []" "hd (dims t) \<noteq> 0"
        by blast
      then show "ev = CallDoForwardPass \<or>
            (\<exists>v t i. i < Suc n \<and> ev = CallCopyConsecutiveSlices v t ((c + of_nat i * b) mod hd (dims t))
               \<and> dims t \<noteq> [] \<and> hd (dims t) \<noteq> 0)"
      proof cases
        case 1
        then show ?thesis by simp
      next
        case 2
        then have "Suc i < Suc n \<and> ev = CallCopyConsecutiveSlices v t ((c + of_nat (Suc i) * b) mod hd (dims t))
               \<and> dims t \<noteq> [] \<and> hd (dims t) \<noteq> 0"
          by (simp only: a) simp
        then show ?thesis by blast
      qed
    qed
    from Done n1 have t1: "trace E1 = trace E @ new1" by simp
    show ?thesis
      using Done n2(1) t1 g1 g2
      by (intro exI [of _ "new1 @ new2"]) auto
  qed
qed

lemma getBatchSize_Inr:
  "getBatchSize E vars = Inr b \<Longrightarrow>
     \<exists>v0. vars \<noteq> [] \<and> variables (eeM E) (hd vars) = Some v0 \<and> dims (payload v0) \<noteq> []
        \<and> hd (dims (payload v0)) = b"
  by (auto simp add: getBatchSize_def split: list.splits option.splits)

lemma runBatch_Done:
  "runBatch env k vars inputs (c, E) = Done (c', E') \<Longrightarrow>
     \<exists>b. getBatchSize E vars = Inr b
        \<and> runBatch_loop env (unat k) vars inputs b (c, E) = Done (c', E')"
  by (auto simp add: runBatch_def split: if_splits option.splits sum.splits)



text \<open>
  Claim C10. Whatever the outcome of \<open>runBatch\<close> and whatever the value of the
  counter it starts from, every slice index it has passed to a slice copy is the counter
  of some iteration, \<open>c + i * batchSize\<close> with \<open>i < k\<close>, reduced modulo the leading
  dimension of the input tensor of that copy, and is strictly below that dimension.
\<close>

theorem runBatch_slice_index_below_leading_dimension:
  "\<exists>new. trace (snd (state_of (runBatch env k vars inputs (c, E)))) = trace E @ new
     \<and> (\<forall>v t slc. CallCopyConsecutiveSlices v t slc \<in> set new \<longrightarrow>
           dims t \<noteq> [] \<and> slc < hd (dims t)
           \<and> (\<exists>b i. getBatchSize E vars = Inr b \<and> i < unat k
                 \<and> slc = (c + of_nat i * b) mod hd (dims t)))"
proof (cases "\<exists>b. inputs \<noteq> [] \<and> length inputs = length vars \<and> (\<exists>ir. eeIR E = Some ir \<and> instrs ir \<noteq> [])
                \<and> getBatchSize E vars = Inr b")
  case False
  then have "state_of (runBatch env k vars inputs (c, E)) = (c, E)"
    by (auto simp add: runBatch_def split: option.splits sum.splits)
  then show ?thesis by (intro exI [of _ "[]"]) simp
next
  case True
  then obtain b where b: "getBatchSize E vars = Inr b" and
    r: "runBatch env k vars inputs (c, E) = runBatch_loop env (unat k) vars inputs b (c, E)"
    by (auto simp add: runBatch_def)
  from runBatch_loop_any [of env "unat k" vars inputs b c E] obtain new where
    n: "trace (snd (state_of (runBatch_loop env (unat k) vars inputs b (c, E)))) = trace E @ new"
    "\<forall>ev\<in>set new. ev = CallDoForwardPass \<or>
            (\<exists>v t i. i < unat k \<and> ev = CallCopyConsecutiveSlices v t ((c + of_nat i * b) mod hd (dims t))
               \<and> dims t \<noteq> [] \<and> hd (dims t) \<noteq> 0)"
    by blast
  have "\<forall>v t slc. CallCopyConsecutiveSlices v t slc \<in> set new \<longrightarrow>
           dims t \<noteq> [] \<and> slc < hd (dims t)
           \<and> (\<exists>b i. getBatchSize E vars = Inr b \<and> i < unat k
                 \<and> slc = (c + of_nat i * b) mod hd (dims t))"
  proof (intro allI impI)
    fix v t slc assume "CallCopyConsecutiveSlices v t slc \<in> set new"
    with n(2) obtain i where i: "i < unat k" "slc = (c + of_nat i * b) mod hd (dims t)"
      "dims t \<noteq> []" "hd (dims t) \<noteq> 0" by auto
    from i(4) have "0 < hd (dims t)" by (simp add: word_neq_0_conv)
    then have "slc < hd (dims t)" unfolding i(2) by (rule word_mod_less_divisor)
    with i b show "dims t \<noteq> [] \<and> slc < hd (dims t)
           \<and> (\<exists>b i. getBatchSize E vars = Inr b \<and> i < unat k
                 \<and> slc = (c + of_nat i * b) mod hd (dims t))" by blast
  qed
  with n(1) r show ?thesis by (intro exI [of _ new]) simp
qed

lemmas example_defs = exampleEngine_def exampleCollaborators_def exampleIR_def examplePublic_def
  examplePrivate_def exampleDataset_def exampleInput_def

lemmas runBatch_defs = runBatch_def getBatchSize_def updateInputsAndRunNetwork_def
  loadValueFromTensorSlice_def Tensor_copyConsecutiveSlices_def slicesConsumed_def sliceBytes_def
  forwardPass_def record_call_def setPayload_def Let_def

lemma runBatch_loop_2:
  "runBatch_loop env 2 vs ts b S = runBatch_loop env (Suc (Suc 0)) vs ts b S"
  by (simp only: numeral_2_eq_2)

lemma shapeOf_setPayload:
  "variables (eeM E) v = Some var \<Longrightarrow> dims t = dims (payload var) \<Longrightarrow>
     shapeOf (variables (eeM (record_call ev (setPayload v var t E)))) = shapeOf (variables (eeM E))"
  by (auto simp add: shapeOf_def record_call_def setPayload_def fun_eq_iff)

lemma loadValueFromTensorSlice_Done:
  "loadValueFromTensorSlice v t c E = Done E' \<longleftrightarrow>
     (\<exists>var. variables (eeM E) v = Some var \<and> sliceLoadable (variables (eeM E)) v t
        \<and> E' = record_call (CallCopyConsecutiveSlices v t (c mod hd (dims t)))
                  (setPayload v var
                     (Tensor_copyConsecutiveSlices (payload var) t (c mod hd (dims t))) E))"
  by (auto simp add: loadValueFromTensorSlice_def sliceLoadable_def shapeOf_def Let_def
      split: option.splits)

lemma sliceLoadable_shape:
  "shapeOf vs = shapeOf vs' \<Longrightarrow> sliceLoadable vs v t = sliceLoadable vs' v t"
  by (simp add: sliceLoadable_def)


lemma updateInputs_loop_Cons_Done:
  "updateInputs_loop (v # vs) ts c E = Done E' \<longleftrightarrow>
     (\<exists>t ts' var. ts = t # ts' \<and> variables (eeM E) v = Some var
        \<and> sliceLoadable (variables (eeM E)) v t
        \<and> updateInputs_loop vs ts' c
             (record_call (CallCopyConsecutiveSlices v t (c mod hd (dims t)))
                (setPayload v var
                   (Tensor_copyConsecutiveSlices (payload var) t (c mod hd (dims t))) E)) = Done E')"
proof (cases ts)
  case Nil
  then show ?thesis by simp
next
  case (Cons t ts')
  show ?thesis
  proof (cases "loadValueFromTensorSlice v t c E")
    case (Done E1)
    from Done [unfolded loadValueFromTensorSlice_Done] obtain var where
      "variables (eeM E) v = Some var" "sliceLoadable (variables (eeM E)) v t"
      "E1 = record_call (CallCopyConsecutiveSlices v t (c mod hd (dims t)))
                  (setPayload v var
                     (Tensor_copyConsecutiveSlices (payload var) t (c mod hd (dims t))) E)"
      by blast
    then show ?thesis using Cons Done by auto
  next
    case (Abort e E1)
    then have "\<not> (\<exists>var. variables (eeM E) v = Some var \<and> sliceLoadable (variables (eeM E)) v t)"
      using loadValueFromTensorSlice_Done [of v t c E] by auto
    then show ?thesis using Cons Abort by auto
  qed
qed



lemma updateInputs_loop_requires:
  "updateInputs_loop vs ts c E = Done E' \<Longrightarrow> i < length vs \<Longrightarrow>
     length vs \<le> length ts \<and> sliceLoadable (variables (eeM E)) (vs ! i) (ts ! i)"
proof (induction vs arbitrary: ts E i)
  case Nil
  then show ?case by simp
next
  case (Cons v vs)
  from Cons.prems(1) obtain t ts' var where
    ts: "ts = t # ts'" and var: "variables (eeM E) v = Some var" and
    ok: "sliceLoadable (variables (eeM E)) v t" and
    rest: "updateInputs_loop vs ts' c
             (record_call (CallCopyConsecutiveSlices v t (c mod hd (dims t)))
                (setPayload v var
                   (Tensor_copyConsecutiveSlices (payload var) t (c mod hd (dims t))) E)) = Done E'"
    unfolding updateInputs_loop_Cons_Done by blast
  have d: "dims (Tensor_copyConsecutiveSlices (payload var) t (c mod hd (dims t))) = dims (payload var)"
    by (simp add: Tensor_copyConsecutiveSlices_def)
  note sh = shapeOf_setPayload [OF var d]
  show ?case
  proof (cases i)
    case 0
    have "length vs \<le> length ts'"
    proof (cases vs)
      case Nil
      then show ?thesis by simp
    next
      case (Cons a list)
      with Cons.IH [OF rest, of 0] show ?thesis by simp
    qed
    with ok ts 0 show ?thesis by simp
  next
    case (Suc k)
    with Cons.prems(2) have k: "k < length vs" by simp
    from Cons.IH [OF rest k] sliceLoadable_shape [OF sh] show ?thesis by (simp add: Suc ts)
  qed
qed













theorem runBatch_slice_index_below_leading_dimension_witness:
  "trace (snd (state_of (runBatch exampleCollaborators 2 [0] [exampleDataset] (2, exampleEngine))))
     = [CallCopyConsecutiveSlices 0 exampleDataset 2, CallDoForwardPass,
        CallCopyConsecutiveSlices 0 exampleDataset 0, CallDoForwardPass]
   \<and> (2::size_t) < hd (dims exampleDataset) \<and> (0::size_t) < hd (dims exampleDataset)"
proof -
  have tr: "trace (snd (state_of (runBatch exampleCollaborators 2 [0] [exampleDataset] (2, exampleEngine))))
     = [CallCopyConsecutiveSlices 0 exampleDataset 2, CallDoForwardPass,
        CallCopyConsecutiveSlices 0 exampleDataset 0, CallDoForwardPass]"
    by (simp add: runBatch_defs example_defs runBatch_loop_2)
  from runBatch_slice_index_below_leading_dimension
         [of exampleCollaborators 2 "[0]" "[exampleDataset]" 2 exampleEngine]
  obtain new where
    n: "trace (snd (state_of (runBatch exampleCollaborators 2 [0] [exampleDataset] (2, exampleEngine))))
          = trace exampleEngine @ new"
    and r: "\<forall>v t slc. CallCopyConsecutiveSlices v t slc \<in> set new \<longrightarrow> slc < hd (dims t)"
    by blast
  from n tr have "new = [CallCopyConsecutiveSlices 0 exampleDataset 2, CallDoForwardPass,
        CallCopyConsecutiveSlices 0 exampleDataset 0, CallDoForwardPass]"
    by (simp add: exampleEngine_def)
  with r have "(2::size_t) < hd (dims exampleDataset) \<and> (0::size_t) < hd (dims exampleDataset)"
    by simp
  with tr show ?thesis by simp
qed

section \<open>Verified properties of the process and of the bundle consumer\<close>

lemma fread_whole:
  "length content = n \<Longrightarrow> snd (fread (calloc n) n (Suc 0) content) = content"
  by (auto simp add: fread_def calloc_def Let_def)

lemma initConstantWeights_Some:
  "weightsFiles env name = Some content \<Longrightarrow>
     initConstantWeights env name config =
       (if length content \<noteq> constantWeightVarsMemSize config then Inl WrongWeightsFileSize
        else Inr content)"
  by (simp add: initConstantWeights_def Let_def fread_whole)

lemma initConstantWeights_Inr:
  "initConstantWeights env name config = Inr c \<Longrightarrow>
     weightsFiles env name = Some c \<and> length c = constantWeightVarsMemSize config"
  by (auto simp add: initConstantWeights_def Let_def fread_whole split: option.splits if_splits)

lemma main_entryCalls:
  "entryCalls (state_of (main env config argv)) =
     (case initConstantWeights env ''lenet_mnist.weights'' config of
        Inl e \<Rightarrow> []
      | Inr c \<Rightarrow>
          (case initMutableWeightVars env (tl argv) config of
             Inl e \<Rightarrow> []
           | Inr m \<Rightarrow> [(c, m, initActivations config)]))"
  by (simp add: main_def Let_def split: sum.splits option.splits)

lemma loadImages_loop_length:
  "loadImages_loop env fs = Inr r \<Longrightarrow> length r = length fs * (28 * 28 * 4)"
  by (induction fs arbitrary: r) (auto split: option.splits if_splits sum.splits)

lemma loadImages_loop_total:
  "\<forall>f\<in>set fs. pngSize env f = Some (28, 28) \<Longrightarrow> \<exists>r. loadImages_loop env fs = Inr r"
  by (induction fs) auto


lemma initMutableWeightVars_total:
  assumes "fs \<noteq> []" and "\<forall>f\<in>set fs. pngSize env f = Some (28, 28)"
    and "2 * (length fs * (28 * 28 * 4)) \<le> mutableWeightVarsMemSize config"
  shows "\<exists>m. initMutableWeightVars env fs config = Inr m"
proof -
  from loadImages_loop_total [OF assms(2)] obtain r where r: "loadImages_loop env fs = Inr r" by blast
  note len = loadImages_loop_length [OF r]
  show ?thesis
    using assms(1,3) r len
    by (simp add: initMutableWeightVars_def loadImagesAndPreprocess_def allocateMutableWeightVars_def
        calloc_def memcpy_def Let_def)
qed



text \<open>
  Claim C4. A weights file whose length differs from the configured size of the
  constant weights makes \<open>initConstantWeights\<close> fail, and \<open>main\<close> end with that
  failure without any invocation of the entry point; a file of the configured length is
  returned byte for byte as the buffer of the constant weights, and that buffer is what
  every invocation of the entry point receives.
\<close>

theorem weights_file_size_checked_before_entry:
  "(weightsFiles env name = Some content \<and> length content \<noteq> constantWeightVarsMemSize config \<longrightarrow>
      initConstantWeights env name config = Inl WrongWeightsFileSize)
   \<and> (weightsFiles env ''lenet_mnist.weights'' = Some content
        \<and> length content \<noteq> constantWeightVarsMemSize config \<longrightarrow>
      main env config argv = Abort WrongWeightsFileSize \<lparr>entryCalls = [], printed = None\<rparr>)
   \<and> (weightsFiles env name = Some content \<and> length content = constantWeightVarsMemSize config \<longrightarrow>
      initConstantWeights env name config = Inr content)
   \<and> (\<forall>c m a. (c, m, a) \<in> set (entryCalls (state_of (main env config argv))) \<longrightarrow>
         weightsFiles env ''lenet_mnist.weights'' = Some c
         \<and> length c = constantWeightVarsMemSize config)"
proof (intro conjI impI allI)
  assume "weightsFiles env name = Some content \<and> length content \<noteq> constantWeightVarsMemSize config"
  then show "initConstantWeights env name config = Inl WrongWeightsFileSize"
    by (simp add: initConstantWeights_Some)
next
  assume "weightsFiles env ''lenet_mnist.weights'' = Some content
        \<and> length content \<noteq> constantWeightVarsMemSize config"
  then have "initConstantWeights env ''lenet_mnist.weights'' config = Inl WrongWeightsFileSize"
    by (simp add: initConstantWeights_Some)
  then show "main env config argv = Abort WrongWeightsFileSize \<lparr>entryCalls = [], printed = None\<rparr>"
    by (simp add: main_def)
next
  assume "weightsFiles env name = Some content \<and> length content = constantWeightVarsMemSize config"
  then show "initConstantWeights env name config = Inr content"
    by (simp add: initConstantWeights_Some)
next
  fix c m a
  assume "(c, m, a) \<in> set (entryCalls (state_of (main env config argv)))"
  then have "initConstantWeights env ''lenet_mnist.weights'' config = Inr c"
    by (auto simp add: main_entryCalls split: sum.splits)
  then show "weightsFiles env ''lenet_mnist.weights'' = Some c"
    and "length c = constantWeightVarsMemSize config"
    using initConstantWeights_Inr by blast+
qed

lemma example_initMutableWeightVars:
  "\<exists>m. initMutableWeightVars exampleBundleEnv [''seven.png''] exampleConfig = Inr m"
  by (rule initMutableWeightVars_total) (simp_all add: exampleBundleEnv_def exampleConfig_def)

lemma example_initConstantWeights:
  "initConstantWeights exampleBundleEnv ''lenet_mnist.weights'' exampleConfig = Inr [1, 2, 3, 4]"
  by (simp add: initConstantWeights_Some [where content = "[1, 2, 3, 4]"] exampleBundleEnv_def
      exampleConfig_def)

lemma example_entryCalls:
  "\<exists>m. entryCalls (state_of (main exampleBundleEnv exampleConfig [''lenet'', ''seven.png'']))
     = [([1, 2, 3, 4], m, initActivations exampleConfig)]"
  using example_initMutableWeightVars
  by (auto simp add: main_entryCalls example_initConstantWeights)

theorem weights_file_size_checked_before_entry_witness:
  "initConstantWeights exampleBundleEnv ''short.weights'' exampleConfig = Inl WrongWeightsFileSize
   \<and> main (exampleBundleEnv\<lparr>weightsFiles := [''lenet_mnist.weights'' \<mapsto> [1, 2, 3]]\<rparr>) exampleConfig
        [''lenet'', ''seven.png'']
       = Abort WrongWeightsFileSize \<lparr>entryCalls = [], printed = None\<rparr>
   \<and> initConstantWeights exampleBundleEnv ''lenet_mnist.weights'' exampleConfig = Inr [1, 2, 3, 4]
   \<and> (\<exists>m a. entryCalls (state_of (main exampleBundleEnv exampleConfig [''lenet'', ''seven.png'']))
                = [([1, 2, 3, 4], m, a)]
         \<and> weightsFiles exampleBundleEnv ''lenet_mnist.weights'' = Some [1, 2, 3, 4])"
proof -
  have a: "initConstantWeights exampleBundleEnv ''short.weights'' exampleConfig = Inl WrongWeightsFileSize"
    using weights_file_size_checked_before_entry
            [of exampleBundleEnv "''short.weights''" "[1, 2, 3]" exampleConfig]
    by (simp add: exampleBundleEnv_def exampleConfig_def)
  have b: "main (exampleBundleEnv\<lparr>weightsFiles := [''lenet_mnist.weights'' \<mapsto> [1, 2, 3]]\<rparr>) exampleConfig
        [''lenet'', ''seven.png'']
       = Abort WrongWeightsFileSize \<lparr>entryCalls = [], printed = None\<rparr>"
    using weights_file_size_checked_before_entry
            [of "exampleBundleEnv\<lparr>weightsFiles := [''lenet_mnist.weights'' \<mapsto> [1, 2, 3]]\<rparr>"
                "''lenet_mnist.weights''" "[1, 2, 3]" exampleConfig]
    by (simp add: exampleConfig_def)
  have c: "initConstantWeights exampleBundleEnv ''lenet_mnist.weights'' exampleConfig = Inr [1, 2, 3, 4]"
    using weights_file_size_checked_before_entry
            [of exampleBundleEnv "''lenet_mnist.weights''" "[1, 2, 3, 4]" exampleConfig]
    by (simp add: exampleBundleEnv_def exampleConfig_def)
  from example_entryCalls obtain m where
    m: "entryCalls (state_of (main exampleBundleEnv exampleConfig [''lenet'', ''seven.png'']))
          = [([1, 2, 3, 4], m, initActivations exampleConfig)]" by blast
  with weights_file_size_checked_before_entry
         [of exampleBundleEnv "''lenet_mnist.weights''" "[1, 2, 3, 4]" exampleConfig
             "[''lenet'', ''seven.png'']"]
  have d: "weightsFiles exampleBundleEnv ''lenet_mnist.weights'' = Some [1, 2, 3, 4]"
    by simp
  from a b c d m show ?thesis by blast
qed



text \<open>
  Claim C7, as the code has it. The consumer has no layout to consult: the floats it
  compares are those at the byte offsets \<open>size - 40 + 4 * i\<close> of the mutable buffer,
  for \<open>i\<close> from 0 to 9, where \<open>size\<close> is the configured size of the mutable weights;
  two buffers that agree from offset \<open>size - 40\<close> on give the same result.
\<close>

theorem dumpInferenceResults_reads_at_fixed_offset_from_end:
  assumes "40 \<le> mutableWeightVarsMemSize config"
    and "length buf = mutableWeightVarsMemSize config"
  shows "dumpInferenceResults env config buf =
           Some (fst (maxIdx_loop (greater env)
             (map (\<lambda>i. toFloat env (take 4 (drop (mutableWeightVarsMemSize config - 40 + 4 * i) buf)))
                  [0..<10])
             0 (0, zeroFloat env)))
       \<and> (\<forall>buf'. length buf' = length buf
             \<and> drop (mutableWeightVarsMemSize config - 40) buf'
                 = drop (mutableWeightVarsMemSize config - 40) buf \<longrightarrow>
             dumpInferenceResults env config buf' = dumpInferenceResults env config buf)"
  using assms by (simp add: dumpInferenceResults_def Let_def add.commute)

theorem dumpInferenceResults_reads_at_fixed_offset_from_end_witness:
  "40 \<le> mutableWeightVarsMemSize smallConfig \<and> length exampleMutable = mutableWeightVarsMemSize smallConfig
   \<and> dumpInferenceResults exampleBundleEnv smallConfig exampleMutable = Some 5
   \<and> dumpInferenceResults exampleBundleEnv smallConfig (replicate 40 0 @ drop 40 exampleMutable) = Some 5"
proof -
  have h: "40 \<le> mutableWeightVarsMemSize smallConfig"
    "length exampleMutable = mutableWeightVarsMemSize smallConfig"
    by (simp_all add: smallConfig_def exampleMutable_def)
  have v: "dumpInferenceResults exampleBundleEnv smallConfig exampleMutable = Some 5"
    by code_simp
  from dumpInferenceResults_reads_at_fixed_offset_from_end [OF h, of exampleBundleEnv]
  have "dumpInferenceResults exampleBundleEnv smallConfig (replicate 40 0 @ drop 40 exampleMutable)
          = dumpInferenceResults exampleBundleEnv smallConfig exampleMutable"
    by (simp add: smallConfig_def exampleMutable_def)
  with h v show ?thesis by simp
qed

text \<open>
  The claim as the specification states it fails: for a bundle whose layout declares
  the results at offset 0 of a mutable region of 80 bytes, the declared bytes have
  their largest float at index 3, and the consumer, reading the last 40 bytes, reports
  index 5.
\<close>

theorem outputs_not_located_by_declared_offsets_counterexample:
  "declaredBytes exampleLayout ''results'' exampleMutable = Some (take 40 exampleMutable)
   \<and> dumpInferenceResults exampleBundleEnv (smallConfig\<lparr>mutableWeightVarsMemSize := 40\<rparr>)
         (take 40 exampleMutable) = Some 3
   \<and> dumpInferenceResults exampleBundleEnv smallConfig exampleMutable = Some 5"
  by code_simp

lemma storeEngine_fields:
  "trainCounter (state_of (storeEngine this P r)) = trainCounter P"
  "engines (state_of (storeEngine this P r)) = (engines P)(this := state_of r)"
  by (cases r; simp add: storeEngine_def)+

lemma call_runBatch_Done:
  "call_runBatch env this k vars inputs P = Done P' \<Longrightarrow>
     \<exists>E'. runBatch env k vars inputs (trainCounter P, engines P this) = Done (trainCounter P', E')
        \<and> engines P' = (engines P)(this := E')"
  by (auto simp add: call_runBatch_def split: outcome.splits prod.splits)

text \<open>
  Claim C9, as the code has it. \<open>reset\<close>, \<open>run\<close>, \<open>compile\<close> and \<open>save\<close> leave the
  sample counter as it was, whatever their outcome, and a completed \<open>runBatch\<close> adds
  \<open>k * batchSize\<close> to it and changes no engine but its own. The counter is one for
  the process: a \<open>runBatch\<close> on any engine, the same or another, that follows starts
  from the counter the previous call left, so that the slices it selects depend on the
  batches every engine has run before.
\<close>

theorem trainCounter_one_per_process:
  "trainCounter (state_of (call_reset env this P)) = trainCounter P
   \<and> trainCounter (state_of (call_run env this vars inputs P)) = trainCounter P
   \<and> trainCounter (state_of (call_compile env this mode F P)) = trainCounter P
   \<and> trainCounter (state_of (call_save env this mode F dir P)) = trainCounter P
   \<and> (call_runBatch env this k vars inputs P = Done P' \<longrightarrow>
        (\<exists>b. getBatchSize (engines P this) vars = Inr b
           \<and> trainCounter P' = trainCounter P + k * b
           \<and> (\<forall>other. other \<noteq> this \<longrightarrow> engines P' other = engines P other)
           \<and> (\<forall>other k' vars' inputs' P''.
                 call_runBatch env other k' vars' inputs' P' = Done P'' \<longrightarrow>
                 (\<exists>b'. getBatchSize (engines P' other) vars' = Inr b'
                    \<and> trainCounter P'' = trainCounter P + k * b + k' * b'
                    \<and> trace (engines P'' other) = trace (engines P' other) @ concat (map (\<lambda>i.
                         map2 (\<lambda>v t. CallCopyConsecutiveSlices v t
                                 ((trainCounter P + k * b + of_nat i * b') mod hd (dims t))) vars' inputs'
                         @ [CallDoForwardPass]) [0..<unat k'])))))"
proof (intro conjI impI)
  show "trainCounter (state_of (call_reset env this P)) = trainCounter P"
    by (simp add: call_reset_def storeEngine_fields)
  show "trainCounter (state_of (call_run env this vars inputs P)) = trainCounter P"
    by (simp add: call_run_def storeEngine_fields)
  show "trainCounter (state_of (call_compile env this mode F P)) = trainCounter P"
    by (simp add: call_compile_def storeEngine_fields)
  show "trainCounter (state_of (call_save env this mode F dir P)) = trainCounter P"
    by (simp add: call_save_def storeEngine_fields)
next
  assume d: "call_runBatch env this k vars inputs P = Done P'"
  from call_runBatch_Done [OF d] obtain E' where
    r: "runBatch env k vars inputs (trainCounter P, engines P this) = Done (trainCounter P', E')"
    and e: "engines P' = (engines P)(this := E')" by blast
  from runBatch_Done [OF r] obtain b where b: "getBatchSize (engines P this) vars = Inr b"
    and l: "runBatch_loop env (unat k) vars inputs b (trainCounter P, engines P this)
              = Done (trainCounter P', E')" by blast
  from runBatch_loop_Done [OF l] have c: "trainCounter P' = trainCounter P + k * b" by simp
  have nxt: "\<forall>other k' vars' inputs' P''.
                 call_runBatch env other k' vars' inputs' P' = Done P'' \<longrightarrow>
                 (\<exists>b'. getBatchSize (engines P' other) vars' = Inr b'
                    \<and> trainCounter P'' = trainCounter P + k * b + k' * b'
                    \<and> trace (engines P'' other) = trace (engines P' other) @ concat (map (\<lambda>i.
                         map2 (\<lambda>v t. CallCopyConsecutiveSlices v t
                                 ((trainCounter P + k * b + of_nat i * b') mod hd (dims t))) vars' inputs'
                         @ [CallDoForwardPass]) [0..<unat k']))"
  proof (intro allI impI)
    fix other k' vars' inputs' P''
    assume d': "call_runBatch env other k' vars' inputs' P' = Done P''"
    from call_runBatch_Done [OF d'] obtain E'' where
      r': "runBatch env k' vars' inputs' (trainCounter P', engines P' other) = Done (trainCounter P'', E'')"
      and e': "engines P'' = (engines P')(other := E'')" by blast
    from runBatch_Done [OF r'] obtain b' where b': "getBatchSize (engines P' other) vars' = Inr b'"
      and l': "runBatch_loop env (unat k') vars' inputs' b' (trainCounter P', engines P' other)
                = Done (trainCounter P'', E'')" by blast
    from runBatch_loop_Done [OF l'] c e' b'
    show "\<exists>b'. getBatchSize (engines P' other) vars' = Inr b'
                    \<and> trainCounter P'' = trainCounter P + k * b + k' * b'
                    \<and> trace (engines P'' other) = trace (engines P' other) @ concat (map (\<lambda>i.
                         map2 (\<lambda>v t. CallCopyConsecutiveSlices v t
                                 ((trainCounter P + k * b + of_nat i * b') mod hd (dims t))) vars' inputs'
                         @ [CallDoForwardPass]) [0..<unat k'])"
      by (intro exI [of _ b']) simp
  qed
  from b c e nxt
  show "\<exists>b. getBatchSize (engines P this) vars = Inr b
           \<and> trainCounter P' = trainCounter P + k * b
           \<and> (\<forall>other. other \<noteq> this \<longrightarrow> engines P' other = engines P other)
           \<and> (\<forall>other k' vars' inputs' P''.
                 call_runBatch env other k' vars' inputs' P' = Done P'' \<longrightarrow>
                 (\<exists>b'. getBatchSize (engines P' other) vars' = Inr b'
                    \<and> trainCounter P'' = trainCounter P + k * b + k' * b'
                    \<and> trace (engines P'' other) = trace (engines P' other) @ concat (map (\<lambda>i.
                         map2 (\<lambda>v t. CallCopyConsecutiveSlices v t
                                 ((trainCounter P + k * b + of_nat i * b') mod hd (dims t))) vars' inputs'
                         @ [CallDoForwardPass]) [0..<unat k'])))"
    by (intro exI [of _ b]) simp
qed

lemmas call_runBatch_defs = call_runBatch_def exampleProcess_def runBatch_defs example_defs

theorem trainCounter_one_per_process_witness:
  "\<exists>P' P''. call_runBatch exampleCollaborators 0 1 [0] [exampleDataset] exampleProcess = Done P'
      \<and> trainCounter exampleProcess = 0 \<and> trainCounter P' = 1 \<and> engines P' 1 = exampleEngine
      \<and> call_runBatch exampleCollaborators 1 1 [0] [exampleDataset] P' = Done P''
      \<and> trainCounter P'' = 2
      \<and> trace (engines P'' 1) = [CallCopyConsecutiveSlices 0 exampleDataset 1, CallDoForwardPass]"
proof -
  obtain P' where p': "call_runBatch exampleCollaborators 0 1 [0] [exampleDataset] exampleProcess = Done P'"
    by (simp add: call_runBatch_defs)
  from trainCounter_one_per_process
         [of exampleCollaborators 0 exampleProcess "[0]" "[exampleDataset]" Infer 0 "[]" 1 P'] p'
  obtain b where b: "getBatchSize (engines exampleProcess 0) [0] = Inr b"
    and c: "trainCounter P' = trainCounter exampleProcess + 1 * b"
    and o: "\<forall>other. other \<noteq> 0 \<longrightarrow> engines P' other = engines exampleProcess other"
    and n: "\<forall>other k' vars' inputs' P''.
                 call_runBatch exampleCollaborators other k' vars' inputs' P' = Done P'' \<longrightarrow>
                 (\<exists>b'. getBatchSize (engines P' other) vars' = Inr b'
                    \<and> trainCounter P'' = trainCounter exampleProcess + 1 * b + k' * b'
                    \<and> trace (engines P'' other) = trace (engines P' other) @ concat (map (\<lambda>i.
                         map2 (\<lambda>v t. CallCopyConsecutiveSlices v t
                                 ((trainCounter exampleProcess + 1 * b + of_nat i * b') mod hd (dims t))) vars' inputs'
                         @ [CallDoForwardPass]) [0..<unat k']))"
    by blast
  from b have b1: "b = 1" by (simp add: getBatchSize_def exampleProcess_def example_defs)
  from o have e1: "engines P' 1 = exampleEngine" by (simp add: exampleProcess_def)
  have c0: "trainCounter exampleProcess = 0" by (simp add: exampleProcess_def)
  from c b1 c0 have c1: "trainCounter P' = 1" by simp
  have "\<exists>P''. call_runBatch exampleCollaborators 1 1 [0] [exampleDataset] P' = Done P''"
    using e1 c1 by (simp add: call_runBatch_def runBatch_defs example_defs)
  then obtain P'' where p'': "call_runBatch exampleCollaborators 1 1 [0] [exampleDataset] P' = Done P''"
    by blast
  from n p'' obtain b' where b': "getBatchSize (engines P' 1) [0] = Inr b'"
    and c'': "trainCounter P'' = trainCounter exampleProcess + 1 * b + 1 * b'"
    and t'': "trace (engines P'' 1) = trace (engines P' 1) @ concat (map (\<lambda>i.
                         map2 (\<lambda>v t. CallCopyConsecutiveSlices v t
                                 ((trainCounter exampleProcess + 1 * b + of_nat i * b') mod hd (dims t)))
                           [0] [exampleDataset]
                         @ [CallDoForwardPass]) [0..<unat (1::size_t)])"
    by blast
  from b' e1 have b1': "b' = 1" by (simp add: getBatchSize_def example_defs)
  from c'' b1 b1' c0 have c2: "trainCounter P'' = 2" by simp
  from t'' e1 b1 b1' c0
  have t2: "trace (engines P'' 1) = [CallCopyConsecutiveSlices 0 exampleDataset 1, CallDoForwardPass]"
    by (simp add: example_defs)
  from p' c0 c1 e1 p'' c2 t2 show ?thesis by blast
qed

text \<open>
  The claim as the specification states it fails: the engine at address 1 selects
  slice 0 for its first batch when no other engine has run, and slice 1 when the
  engine at address 0 has run one batch before it.
\<close>

theorem cursor_shared_between_engines_counterexample:
  "trace (engines (state_of
       (call_runBatch exampleCollaborators 1 1 [0] [exampleDataset] exampleProcess)) 1)
     = [CallCopyConsecutiveSlices 0 exampleDataset 0, CallDoForwardPass]
   \<and> trace (engines (state_of
       (call_runBatch exampleCollaborators 1 1 [0] [exampleDataset]
          (state_of (call_runBatch exampleCollaborators 0 1 [0] [exampleDataset] exampleProcess)))) 1)
     = [CallCopyConsecutiveSlices 0 exampleDataset 1, CallDoForwardPass]"
  by (simp add: call_runBatch_defs)

end
